theory Spec2Isabelle
  imports Main "HOL-Library.Word"
begin

section \<open>Export pipeline: internal/explorer/db\_export.go\<close>

subsection \<open>Data\<close>

text \<open>
  \<^verbatim>\<open>common.Address\<close> is a 20-byte array and \<^verbatim>\<open>common.Hash\<close> a 32-byte array. The
  \<^verbatim>\<open>Hex()\<close> renderings that the inserts pass to the driver are injective, so the rows
  below keep the values themselves.
\<close>

type_synonym address = "160 word"
type_synonym hash = "256 word"

definition emptyAddress :: address where
  "emptyAddress = 0"

text \<open>A Go panic leaves the function through \<open>Inl\<close>; nothing in these files recovers.\<close>

datatype panic = IndexOutOfRange | NilDereference

text \<open>
  \<^verbatim>\<open>callFrame0\<close>: the fields in the order of the struct. \<^verbatim>\<open>To\<close> and \<^verbatim>\<open>Value\<close> are
  pointers, \<open>None\<close> is the nil pointer. \<^verbatim>\<open>hexutil.Big\<close> is a \<^verbatim>\<open>big.Int\<close>, an unbounded
  signed integer.
\<close>

datatype callFrame0 = CallFrame0
  (From: address)
  (To: "address option")
  (Calls: "callFrame0 list")
  (Value: "int option")
  (TypeString: string)

text \<open>
  What the hook reads of a \<^verbatim>\<open>types.Block\<close>: the hashes of its transactions in block
  order, its number and its hash.
\<close>

record block =
  Transactions :: "hash list"
  Number :: int
  Hash :: hash

text \<open>The columns of the two tables (db\_export.sql), in the order of the INSERT statements.\<close>

record internal_transaction =
  tx_hash :: hash
  block_number :: int
  block_hash :: hash
  tx_index :: nat
  call_index :: int
  from_addr :: address
  to_addr :: address
  value_str :: string

record block_data =
  number :: int
  hash_col :: hash
  block_data_col :: string
  trace_data :: "string option"

datatype stmt =
    InsertBlockData block_data
  | InsertInternalTransaction internal_transaction

text \<open>
  The world the hook acts on: the store behind \<^verbatim>\<open>explorerDb\<close>, the statements passed to
  \<^verbatim>\<open>explorerDb.Exec\<close> so far and the messages passed to \<^verbatim>\<open>log.Error\<close> so far, both in
  order. The store is an external collaborator: \<open>drv\<close> maps a store and a statement to
  the new store and the error that \<^verbatim>\<open>Exec\<close> returns (\<open>None\<close> is nil).
\<close>

record 'db world =
  explorerDb :: 'db
  execs :: "stmt list"
  logged :: "string list"

type_synonym 'db driver = "'db \<Rightarrow> stmt \<Rightarrow> 'db \<times> string option"

definition Exec :: "'db driver \<Rightarrow> stmt \<Rightarrow> 'db world \<Rightarrow> 'db world \<times> string option" where
  "Exec drv s w =
     (case drv (explorerDb w) s of
        (d, err) \<Rightarrow> (w\<lparr>explorerDb := d, execs := execs w @ [s]\<rparr>, err))"

definition log_Error :: "string \<Rightarrow> 'db world \<Rightarrow> 'db world" where
  "log_Error msg w = w\<lparr>logged := logged w @ [msg]\<rparr>"

subsection \<open>The decimal form of a big integer\<close>

definition digit_char :: "nat \<Rightarrow> char" where
  "digit_char d = ''0123456789'' ! d"

fun dec_digits :: "nat \<Rightarrow> string" where
  "dec_digits n = (if n < 10 then [digit_char n] else dec_digits (n div 10) @ [digit_char (n mod 10)])"

declare dec_digits.simps [simp del]

text \<open>
  Modelled from the spec: \<^verbatim>\<open>hexutil.Big.String\<close> (common/hexutil of this repository) is
  not among the sources. The spec gives the persisted \<^verbatim>\<open>value\<close> as the "decimal string
  form of the big integer", and \<open>Big_String\<close> follows these words.
\<close>

definition Big_String :: "int \<Rightarrow> string" where
  "Big_String v = (if v < 0 then CHR ''-'' # dec_digits (nat (- v)) else dec_digits (nat v))"

text \<open>Reading a decimal numeral back, to say what a string of digits denotes.\<close>

definition digit_val :: "char \<Rightarrow> nat" where
  "digit_val c = of_char c - 48"

definition dec_value :: "string \<Rightarrow> nat" where
  "dec_value s = foldl (\<lambda>acc c. 10 * acc + digit_val c) 0 s"

subsection \<open>navigateCallFrame\<close>

definition internal_tx :: "block \<Rightarrow> nat \<Rightarrow> int \<Rightarrow> callFrame0 \<Rightarrow> internal_transaction" where
  "internal_tx blk ix ci frame =
     \<lparr>tx_hash = Transactions blk ! ix, block_number = Number blk, block_hash = Hash blk,
      tx_index = ix, call_index = ci, from_addr = From frame, to_addr = the (To frame),
      value_str = Big_String (the (Value frame))\<rparr>"

text \<open>
  The condition is evaluated left to right with short-circuit: \<^verbatim>\<open>frame.Value.ToInt().Cmp\<close>
  is reached only by a frame of type "Call" with a non-zero sender and a receiver, and
  dereferences a nil \<^verbatim>\<open>Value\<close>. \<^verbatim>\<open>block.Transactions()[tx_index]\<close> is evaluated before
  \<^verbatim>\<open>Exec\<close> is called and panics out of range. \<^verbatim>\<open>*call_index\<close> is read by the driver when
  \<^verbatim>\<open>Exec\<close> runs, before the increment. The early \<^verbatim>\<open>return\<close> leaves before the loop over
  \<^verbatim>\<open>frame.Calls\<close>.
\<close>

fun navigateCallFrame ::
    "'db driver \<Rightarrow> block \<Rightarrow> nat \<Rightarrow> callFrame0 \<Rightarrow> 'db world \<times> int \<Rightarrow> panic + ('db world \<times> int)"
  and navigateCalls ::
    "'db driver \<Rightarrow> block \<Rightarrow> nat \<Rightarrow> callFrame0 list \<Rightarrow> 'db world \<times> int \<Rightarrow> panic + ('db world \<times> int)"
where
  "navigateCallFrame drv blk ix (CallFrame0 from to calls val typ) (w, ci) =
     (if typ \<noteq> ''Call'' \<or> from = emptyAddress \<or> to = None then Inr (w, ci)
      else case val of
        None \<Rightarrow> Inl NilDereference
      | Some v \<Rightarrow>
          if v = 0 then Inr (w, ci)
          else if length (Transactions blk) \<le> ix then Inl IndexOutOfRange
          else
            (case Exec drv (InsertInternalTransaction
                    (internal_tx blk ix ci (CallFrame0 from to calls val typ))) w of
               (w1, err) \<Rightarrow>
                 navigateCalls drv blk ix calls
                   (case err of
                      None \<Rightarrow> w1
                    | Some e \<Rightarrow> log_Error ''Failed to insert internal transaction'' w1,
                    ci + 1)))"
| "navigateCalls drv blk ix [] s = Inr s"
| "navigateCalls drv blk ix (call # rest) s =
     (case navigateCallFrame drv blk ix call s of
        Inl p \<Rightarrow> Inl p
      | Inr s' \<Rightarrow> navigateCalls drv blk ix rest s')"

subsection \<open>blockImportHook\<close>

text \<open>
  The two loops of the hook. \<^verbatim>\<open>call_index\<close> is declared inside the inner loop: every
  frame of a transaction's entry starts from 0.
\<close>

fun range_callstack ::
    "'db driver \<Rightarrow> block \<Rightarrow> nat \<Rightarrow> callFrame0 list \<Rightarrow> 'db world \<Rightarrow> panic + 'db world" where
  "range_callstack drv blk ix [] w = Inr w"
| "range_callstack drv blk ix (frame # rest) w =
     (case navigateCallFrame drv blk ix frame (w, 0) of
        Inl p \<Rightarrow> Inl p
      | Inr (w', ci) \<Rightarrow> range_callstack drv blk ix rest w')"

fun range_callstacks ::
    "'db driver \<Rightarrow> block \<Rightarrow> nat \<Rightarrow> callFrame0 list list \<Rightarrow> 'db world \<Rightarrow> panic + 'db world" where
  "range_callstacks drv blk ix [] w = Inr w"
| "range_callstacks drv blk ix (callstack # rest) w =
     (case range_callstack drv blk ix callstack w of
        Inl p \<Rightarrow> Inl p
      | Inr w' \<Rightarrow> range_callstacks drv blk (Suc ix) rest w')"

text \<open>
  \<^verbatim>\<open>ethapi.RPCMarshalBlockEx\<close> followed by \<^verbatim>\<open>json.Marshal\<close>, and \<^verbatim>\<open>json.Unmarshal\<close> into
  \<^verbatim>\<open>[][]callFrame0\<close>, are parameters: \<open>marshal\<close> gives the document or the error,
  \<open>unmarshal\<close> the decoded trace or the error. The hook always returns the nil map, so
  the model returns the world. In the branch with a trace the variable \<^verbatim>\<open>err\<close> is
  overwritten by the result of \<^verbatim>\<open>json.Unmarshal\<close> and tested once more after the branch.
\<close>

definition blockImportHook ::
    "'db driver \<Rightarrow> (block \<Rightarrow> 'r \<Rightarrow> string \<Rightarrow> string + string) \<Rightarrow>
     (string \<Rightarrow> string + callFrame0 list list) \<Rightarrow>
     block \<Rightarrow> 'r \<Rightarrow> string \<Rightarrow> 'db world \<Rightarrow> panic + 'db world" where
  "blockImportHook drv marshal unmarshal blk receipts traceData w =
     (case marshal blk receipts traceData of
        Inl err \<Rightarrow> Inr (log_Error ''Failed to marshal block data'' w)
      | Inr jsonData \<Rightarrow>
          if length traceData \<noteq> 0 then
            (case Exec drv (InsertBlockData
                    \<lparr>number = Number blk, hash_col = Hash blk, block_data_col = jsonData,
                     trace_data = Some traceData\<rparr>) w of
               (w1, err) \<Rightarrow>
                 let w2 = (if err \<noteq> None then log_Error ''Failed to insert block data'' w1 else w1)
                 in (case unmarshal traceData of
                       Inl err' \<Rightarrow>
                         Inr (log_Error ''Failed to insert block data''
                               (log_Error ''Failed to unmarshal trace data'' w2))
                     | Inr callstacks \<Rightarrow> range_callstacks drv blk 0 callstacks w2))
          else
            (case Exec drv (InsertBlockData
                    \<lparr>number = Number blk, hash_col = Hash blk, block_data_col = jsonData,
                     trace_data = None\<rparr>) w of
               (w1, err) \<Rightarrow>
                 Inr (if err \<noteq> None then log_Error ''Failed to insert block data'' w1 else w1)))"

subsection \<open>What the extractor emits, as functions of the tree\<close>

text \<open>
  The condition under which \<^verbatim>\<open>navigateCallFrame\<close> passes its guard, and the frames it
  reaches: a frame that passes, followed by what its children reach; nothing below a
  frame that does not pass.
\<close>

definition emits :: "callFrame0 \<Rightarrow> bool" where
  "emits frame = (TypeString frame = ''Call'' \<and> From frame \<noteq> emptyAddress \<and> To frame \<noteq> None \<and>
     Value frame \<noteq> None \<and> Value frame \<noteq> Some 0)"

fun reached :: "callFrame0 \<Rightarrow> callFrame0 list" where
  "reached (CallFrame0 from to calls val typ) =
     (if emits (CallFrame0 from to calls val typ)
      then CallFrame0 from to calls val typ # concat (map reached calls) else [])"

fun number_rows :: "block \<Rightarrow> nat \<Rightarrow> int \<Rightarrow> callFrame0 list \<Rightarrow> internal_transaction list" where
  "number_rows blk ix ci [] = []"
| "number_rows blk ix ci (f # fs) = internal_tx blk ix ci f # number_rows blk ix (ci + 1) fs"

text \<open>
  The records of one entry of the trace (every frame of the entry starts from index 0)
  and of the whole trace (entry \<open>i\<close> is written with transaction index \<open>i\<close>).
\<close>

definition entry_rows :: "block \<Rightarrow> nat \<Rightarrow> callFrame0 list \<Rightarrow> internal_transaction list" where
  "entry_rows blk ix entry = concat (map (\<lambda>frame. number_rows blk ix 0 (reached frame)) entry)"

fun trace_rows :: "block \<Rightarrow> nat \<Rightarrow> callFrame0 list list \<Rightarrow> internal_transaction list" where
  "trace_rows blk ix [] = []"
| "trace_rows blk ix (entry # rest) = entry_rows blk ix entry @ trace_rows blk (Suc ix) rest"

text \<open>
  The qualification rule in the spec's words: type Call, sender non-zero, receiver present
  and non-zero, value present and strictly positive.
\<close>

definition qualifies :: "callFrame0 \<Rightarrow> bool" where
  "qualifies frame =
     (TypeString frame = ''Call'' \<and> From frame \<noteq> emptyAddress \<and>
      (case To frame of None \<Rightarrow> False | Some a \<Rightarrow> a \<noteq> emptyAddress) \<and>
      (case Value frame of None \<Rightarrow> False | Some v \<Rightarrow> 0 < v))"

text \<open>
  The frames on which \<^verbatim>\<open>navigateCallFrame\<close> does not panic: no reached frame of type
  "Call" with sender and receiver lacks its value, and the transaction index is in range
  wherever a record is written.
\<close>

fun panic_free :: "block \<Rightarrow> nat \<Rightarrow> callFrame0 \<Rightarrow> bool" where
  "panic_free blk ix (CallFrame0 from to calls val typ) =
     (if typ \<noteq> ''Call'' \<or> from = emptyAddress \<or> to = None then True
      else case val of
        None \<Rightarrow> False
      | Some v \<Rightarrow> v = 0 \<or> (ix < length (Transactions blk) \<and> list_all (panic_free blk ix) calls))"

text \<open>The decoded traces on which the two loops of the hook do not panic.\<close>

fun trace_panic_free :: "block \<Rightarrow> nat \<Rightarrow> callFrame0 list list \<Rightarrow> bool" where
  "trace_panic_free blk ix [] = True"
| "trace_panic_free blk ix (entry # rest) =
     (list_all (panic_free blk ix) entry \<and> trace_panic_free blk (Suc ix) rest)"

subsection \<open>A store and inputs for the examples\<close>

text \<open>
  A store that enforces the primary keys of db\_export.sql: \<^verbatim>\<open>block_data(hash)\<close> and
  \<^verbatim>\<open>internal_transactions(tx_hash, call_index)\<close>. The frames are the scenario of the
  spec: a root (Call, A to B, 5) with a child (Call, B to C, 3) with a grandchild
  (StaticCall, C to D, 0).
\<close>

type_synonym sql_store = "block_data list \<times> internal_transaction list"

definition sql_driver :: "sql_store driver" where
  "sql_driver db s =
     (case s of
        InsertBlockData r \<Rightarrow>
          if hash_col r \<in> set (map hash_col (fst db)) then (db, Some ''duplicate key'')
          else ((fst db @ [r], snd db), None)
      | InsertInternalTransaction r \<Rightarrow>
          if (tx_hash r, call_index r) \<in> set (map (\<lambda>x. (tx_hash x, call_index x)) (snd db))
          then (db, Some ''duplicate key'')
          else ((fst db, snd db @ [r]), None))"

definition empty_world :: "sql_store world" where
  "empty_world = \<lparr>explorerDb = ([], []), execs = [], logged = []\<rparr>"

definition block_7 :: block where
  "block_7 = \<lparr>Transactions = [0x1111, 0x2222], Number = 7, Hash = 0x7777\<rparr>"

definition frame_C_D :: callFrame0 where
  "frame_C_D = CallFrame0 0xC (Some 0xD) [] (Some 0) ''StaticCall''"

definition frame_B_C :: callFrame0 where
  "frame_B_C = CallFrame0 0xB (Some 0xC) [frame_C_D] (Some 3) ''Call''"

definition frame_A_B :: callFrame0 where
  "frame_A_B = CallFrame0 0xA (Some 0xB) [frame_B_C] (Some 5) ''Call''"

definition frame_to_zero :: callFrame0 where
  "frame_to_zero = CallFrame0 0xA (Some 0) [] (Some 5) ''Call''"

text \<open>
  A call without value that contains a call with value; results of the marshalling and of
  the decoding for the examples.
\<close>

definition frame_zero_value :: callFrame0 where
  "frame_zero_value = CallFrame0 0xA (Some 0xB) [frame_B_C] (Some 0) ''Call''"

definition marshal_ok :: "block \<Rightarrow> unit \<Rightarrow> string \<Rightarrow> string + string" where
  "marshal_ok blk receipts traceData = Inr ''{}''"

definition marshal_fails :: "block \<Rightarrow> unit \<Rightarrow> string \<Rightarrow> string + string" where
  "marshal_fails blk receipts traceData = Inl ''json: unsupported value''"

definition unmarshal_fails :: "string \<Rightarrow> string + callFrame0 list list" where
  "unmarshal_fails traceData = Inl ''invalid character''"

definition unmarshal_scenario :: "string \<Rightarrow> string + callFrame0 list list" where
  "unmarshal_scenario traceData = Inr [[CallFrame0 0 None [] None ''STOP'', frame_A_B]]"

section \<open>The tracer: blockCallsTracer\<close>

subsection \<open>Data\<close>

record callLog =
  Address :: address
  Topics :: "hash list"
  Data :: "8 word list"
  Position :: nat

text \<open>
  Modelled from the spec: the struct \<^verbatim>\<open>callFrame\<close> (eth/tracers/native/call.go) is not
  among the sources. Its fields are the ones the tracer assigns and the ones that
  \<^verbatim>\<open>callFrame0\<close> lists, commented out, as copied from it, in that order; they are the
  attributes of a CallFrame in the spec's data model.
\<close>

datatype callFrame = CallFrame
  (cf_Type: "8 word")
  (cf_From: address)
  (cf_Gas: "64 word")
  (cf_GasUsed: "64 word")
  (cf_To: "address option")
  (cf_Input: "8 word list")
  (cf_Output: "8 word list")
  (cf_Error: string)
  (cf_RevertReason: string)
  (cf_Calls: "callFrame list")
  (cf_Logs: "callLog list")
  (cf_Value: "int option")

text \<open>The zero value of the struct, as \<^verbatim>\<open>make([]callFrame, 1)\<close> allocates it.\<close>

definition zero_callFrame :: callFrame where
  "zero_callFrame = CallFrame 0 0 0 0 None [] [] [] [] [] [] None"

text \<open>Assignments to single fields.\<close>

fun set_Gas :: "64 word \<Rightarrow> callFrame \<Rightarrow> callFrame" where
  "set_Gas g (CallFrame ty fr gas gu to inp out er rr calls logs val) =
     CallFrame ty fr g gu to inp out er rr calls logs val"

fun set_GasUsed :: "64 word \<Rightarrow> callFrame \<Rightarrow> callFrame" where
  "set_GasUsed g (CallFrame ty fr gas gu to inp out er rr calls logs val) =
     CallFrame ty fr gas g to inp out er rr calls logs val"

fun append_Call :: "callFrame \<Rightarrow> callFrame \<Rightarrow> callFrame" where
  "append_Call c (CallFrame ty fr gas gu to inp out er rr calls logs val) =
     CallFrame ty fr gas gu to inp out er rr (calls @ [c]) logs val"

fun append_Log :: "callLog \<Rightarrow> callFrame \<Rightarrow> callFrame" where
  "append_Log l (CallFrame ty fr gas gu to inp out er rr calls logs val) =
     CallFrame ty fr gas gu to inp out er rr calls (logs @ [l]) val"

record blockCallsTracerConfig =
  OnlyTopCall :: bool
  WithLog :: bool

record blockCallsTracer =
  callstacks :: "callFrame list list"
  callstack :: "callFrame list"
  config :: blockCallsTracerConfig
  gasLimit :: "64 word"
  depth :: int
  interrupt :: bool
  reason :: "string option"

text \<open>
  \<^verbatim>\<open>processOutput\<close> and \<^verbatim>\<open>clearFailedLogs\<close> (call.go) and \<^verbatim>\<open>json.Marshal\<close> of the trees
  are not among the sources: the operations take them as parameters.
\<close>

record helpers =
  processOutput :: "callFrame \<Rightarrow> 8 word list \<Rightarrow> string option \<Rightarrow> bool \<Rightarrow> callFrame"
  clearFailedLogs :: "callFrame \<Rightarrow> bool \<Rightarrow> callFrame"
  json_Marshal :: "callFrame list list \<Rightarrow> string + string"

text \<open>What the tracer reads of a \<^verbatim>\<open>types.Log\<close>.\<close>

record txlog =
  log_Address :: address
  log_Topics :: "hash list"
  log_Data :: "8 word list"

subsection \<open>Operations\<close>

definition newBlockCallsTracerObject :: "blockCallsTracerConfig \<Rightarrow> blockCallsTracer" where
  "newBlockCallsTracerObject cfg =
     \<lparr>callstacks = [], callstack = [], config = cfg, gasLimit = 0, depth = 0,
      interrupt = False, reason = None\<rparr>"

definition OnBlockStart :: "blockCallsTracer \<Rightarrow> blockCallsTracer" where
  "OnBlockStart t = t\<lparr>callstacks := [], interrupt := False, reason := None\<rparr>"

definition OnEnter ::
    "int \<Rightarrow> 8 word \<Rightarrow> address \<Rightarrow> address \<Rightarrow> 8 word list \<Rightarrow> 64 word \<Rightarrow> int option \<Rightarrow>
     blockCallsTracer \<Rightarrow> blockCallsTracer" where
  "OnEnter d typ from to input gas val t =
     (let t1 = t\<lparr>depth := d\<rparr> in
      if OnlyTopCall (config t1) \<and> d > 0 then t1
      else if interrupt t1 then t1
      else
        let call = CallFrame typ from gas 0 (Some to) input [] [] [] [] [] val;
            call' = (if d = 0 then set_Gas (gasLimit t1) call else call)
        in t1\<lparr>callstack := callstack t1 @ [call']\<rparr>)"

definition captureEnd ::
    "helpers \<Rightarrow> 8 word list \<Rightarrow> 64 word \<Rightarrow> string option \<Rightarrow> bool \<Rightarrow>
     blockCallsTracer \<Rightarrow> blockCallsTracer" where
  "captureEnd h output gasUsed err reverted t =
     (if length (callstack t) \<noteq> 1 then t
      else t\<lparr>callstack := [processOutput h (hd (callstack t)) output err reverted]\<rparr>)"

definition OnExit ::
    "helpers \<Rightarrow> int \<Rightarrow> 8 word list \<Rightarrow> 64 word \<Rightarrow> string option \<Rightarrow> bool \<Rightarrow>
     blockCallsTracer \<Rightarrow> blockCallsTracer" where
  "OnExit h d output gasUsed err reverted t =
     (if d = 0 then captureEnd h output gasUsed err reverted t
      else
        let t1 = t\<lparr>depth := d - 1\<rparr> in
        if OnlyTopCall (config t1) then t1
        else
          let size = length (callstack t1) in
          if size \<le> 1 then t1
          else
            let call = callstack t1 ! (size - 1);
                stack = take (size - 1) (callstack t1);
                size' = size - 1;
                call' = processOutput h (set_GasUsed gasUsed call) output err reverted
            in t1\<lparr>callstack := stack[size' - 1 := append_Call call' (stack ! (size' - 1))]\<rparr>)"

definition OnTxStart :: "64 word \<Rightarrow> blockCallsTracer \<Rightarrow> blockCallsTracer" where
  "OnTxStart txGas t =
     t\<lparr>callstack := [zero_callFrame], gasLimit := txGas, depth := 0,
       interrupt := False, reason := None\<rparr>"

text \<open>
  \<^verbatim>\<open>receipt\<close> is a pointer (\<open>None\<close> is nil; the model keeps its \<^verbatim>\<open>GasUsed\<close>). The right-hand
  side \<^verbatim>\<open>receipt.GasUsed\<close> is evaluated before the indexed assignment is carried out.
\<close>

definition OnTxEnd ::
    "helpers \<Rightarrow> 64 word option \<Rightarrow> string option \<Rightarrow> blockCallsTracer \<Rightarrow> panic + blockCallsTracer" where
  "OnTxEnd h receipt err t =
     (if err \<noteq> None then Inr t
      else case receipt of
        None \<Rightarrow> Inl NilDereference
      | Some gasUsed \<Rightarrow>
          (case callstack t of
             [] \<Rightarrow> Inl IndexOutOfRange
           | root # rest \<Rightarrow>
               let root1 = set_GasUsed gasUsed root;
                   root2 = (if WithLog (config t) then clearFailedLogs h root1 False else root1)
               in Inr (t\<lparr>callstacks := callstacks t @ [root2 # rest], callstack := []\<rparr>)))"

definition OnLog :: "txlog \<Rightarrow> blockCallsTracer \<Rightarrow> panic + blockCallsTracer" where
  "OnLog l t =
     (if \<not> WithLog (config t) then Inr t
      else if OnlyTopCall (config t) \<and> depth t > 0 then Inr t
      else if interrupt t then Inr t
      else if callstack t = [] then Inl IndexOutOfRange
      else
        let n = length (callstack t);
            top = callstack t ! (n - 1);
            cl = \<lparr>Address = log_Address l, Topics = log_Topics l, Data = log_Data l,
                  Position = length (cf_Calls top)\<rparr>
        in Inr (t\<lparr>callstack := (callstack t)[n - 1 := append_Log cl top]\<rparr>))"

text \<open>The result of \<^verbatim>\<open>GetResult\<close> is the pair (bytes, error); \<open>None\<close> is nil.\<close>

definition GetResult :: "helpers \<Rightarrow> blockCallsTracer \<Rightarrow> string option \<times> string option" where
  "GetResult h t =
     (case json_Marshal h (callstacks t) of
        Inl err \<Rightarrow> (None, Some err)
      | Inr res \<Rightarrow> (Some res, reason t))"

definition Stop :: "string option \<Rightarrow> blockCallsTracer \<Rightarrow> blockCallsTracer" where
  "Stop err t = t\<lparr>reason := err, interrupt := True\<rparr>"

subsection \<open>The engine's callbacks as events\<close>

record enter_args =
  en_typ :: "8 word"
  en_from :: address
  en_to :: address
  en_input :: "8 word list"
  en_gas :: "64 word"
  en_value :: "int option"

record exit_args =
  ex_output :: "8 word list"
  ex_gasUsed :: "64 word"
  ex_err :: "string option"
  ex_reverted :: bool

datatype event =
    BlockStart
  | TxStart "64 word"
  | Enter int enter_args
  | Exit int exit_args
  | Log txlog
  | TxEnd "64 word option" "string option"
  | StopTracer "string option"

fun fire :: "helpers \<Rightarrow> event \<Rightarrow> blockCallsTracer \<Rightarrow> panic + blockCallsTracer" where
  "fire h BlockStart t = Inr (OnBlockStart t)"
| "fire h (TxStart g) t = Inr (OnTxStart g t)"
| "fire h (Enter d a) t =
     Inr (OnEnter d (en_typ a) (en_from a) (en_to a) (en_input a) (en_gas a) (en_value a) t)"
| "fire h (Exit d x) t = Inr (OnExit h d (ex_output x) (ex_gasUsed x) (ex_err x) (ex_reverted x) t)"
| "fire h (Log l) t = OnLog l t"
| "fire h (TxEnd r err) t = OnTxEnd h r err t"
| "fire h (StopTracer err) t = Inr (Stop err t)"

fun run :: "helpers \<Rightarrow> event list \<Rightarrow> blockCallsTracer \<Rightarrow> panic + blockCallsTracer" where
  "run h [] t = Inr t"
| "run h (e # es) t = (case fire h e t of Inl p \<Rightarrow> Inl p | Inr t' \<Rightarrow> run h es t')"

text \<open>
  A valid depth-first sequence for one scope: the enter at depth \<open>d\<close>, then the logs and
  the sub-scopes at depth \<open>d + 1\<close> in order, then the exit at depth \<open>d\<close>.
\<close>

datatype script = Scope enter_args "script list" exit_args | Emit txlog

fun events_of :: "int \<Rightarrow> script \<Rightarrow> event list" where
  "events_of d (Scope a subs x) = Enter d a # concat (map (events_of (d + 1)) subs) @ [Exit d x]"
| "events_of d (Emit l) = [Log l]"

subsection \<open>Auxiliary notions and inputs for the examples\<close>

text \<open>
  What a well-nested scope below the root leaves as it found it; the events that begin a
  transaction or a block or stop the tracer; helpers that leave a frame as it is.
\<close>

definition unchanged_but_frames :: "blockCallsTracer \<Rightarrow> blockCallsTracer \<Rightarrow> bool" where
  "unchanged_but_frames t t' =
     (length (callstack t') = length (callstack t) \<and> callstacks t' = callstacks t \<and>
      config t' = config t \<and> interrupt t' = interrupt t \<and> reason t' = reason t)"

fun restarts :: "event \<Rightarrow> bool" where
  "restarts BlockStart = True"
| "restarts (TxStart g) = True"
| "restarts (StopTracer err) = True"
| "restarts ev = False"

definition keep_helpers :: helpers where
  "keep_helpers =
     \<lparr>processOutput = (\<lambda>frame output err reverted. frame),
      clearFailedLogs = (\<lambda>frame parentFailed. frame),
      json_Marshal = (\<lambda>trees. Inr ''[]'')\<rparr>"

definition default_config :: blockCallsTracerConfig where
  "default_config = \<lparr>OnlyTopCall = False, WithLog = False\<rparr>"

definition with_log_config :: blockCallsTracerConfig where
  "with_log_config = \<lparr>OnlyTopCall = False, WithLog = True\<rparr>"

definition enter_A_B :: enter_args where
  "enter_A_B = \<lparr>en_typ = 0xF1, en_from = 0xA, en_to = 0xB, en_input = [], en_gas = 21000,
     en_value = Some 5\<rparr>"

definition enter_B_C :: enter_args where
  "enter_B_C = \<lparr>en_typ = 0xF1, en_from = 0xB, en_to = 0xC, en_input = [], en_gas = 2300,
     en_value = Some 3\<rparr>"

definition exit_ok :: exit_args where
  "exit_ok = \<lparr>ex_output = [], ex_gasUsed = 0, ex_err = None, ex_reverted = False\<rparr>"

definition some_log :: txlog where
  "some_log = \<lparr>log_Address = 0xB, log_Topics = [], log_Data = []\<rparr>"

definition exit_777 :: exit_args where
  "exit_777 = \<lparr>ex_output = [], ex_gasUsed = 777, ex_err = None, ex_reverted = False\<rparr>"

definition nested_tracer :: blockCallsTracer where
  "nested_tracer =
     OnEnter 1 0xF1 0xB 0xC [] 2300 (Some 3)
       (OnEnter 0 0xF1 0xA 0xB [] 21000 (Some 5)
         (OnTxStart 21000 (newBlockCallsTracerObject with_log_config)))"

definition open_tracer :: blockCallsTracer where
  "open_tracer =
     OnEnter 0 0xF1 0xA 0xB [] 21000 (Some 5) (OnTxStart 21000 (newBlockCallsTracerObject with_log_config))"

section \<open>Trace serialization\<close>

text \<open>
  Modelled from the spec: the encoder is \<^verbatim>\<open>json.Marshal\<close> of \<^verbatim>\<open>[][]callFrame\<close> through the
  marshalling methods of \<^verbatim>\<open>callFrame\<close>, \<^verbatim>\<open>common.Address\<close> and \<^verbatim>\<open>hexutil.Big\<close>, none of
  which is among the sources; the decoder is \<^verbatim>\<open>json.Unmarshal\<close> into \<^verbatim>\<open>[][]callFrame0\<close>,
  whose field tags are. Both are given on JSON documents (the spec's "direct structural
  encoding of the data model"); the text of a document is the business of Go's
  encoding/json. Keys and the \<^verbatim>\<open>omitempty\<close> options are the tags of \<^verbatim>\<open>callFrame0\<close> and of
  the fields it lists as copied from \<^verbatim>\<open>callFrame\<close>; addresses, quantities and byte strings
  are 0x-prefixed hexadecimal strings.
\<close>

datatype json =
    JNull
  | JBool bool
  | JNumber int
  | JString string
  | JArray "json list"
  | JObject "(string \<times> json) list"

definition hex_char :: "nat \<Rightarrow> char" where
  "hex_char d = ''0123456789abcdef'' ! d"

fun hex_digits :: "nat \<Rightarrow> string" where
  "hex_digits n = (if n < 16 then [hex_char n] else hex_digits (n div 16) @ [hex_char (n mod 16)])"

declare hex_digits.simps [simp del]

fun hex_fixed :: "nat \<Rightarrow> nat \<Rightarrow> string" where
  "hex_fixed 0 n = []"
| "hex_fixed (Suc k) n = hex_fixed k (n div 16) @ [hex_char (n mod 16)]"

definition hex_val :: "char \<Rightarrow> nat option" where
  "hex_val c = map_of (zip ''0123456789abcdefABCDEF'' ([0..<16] @ [10..<16])) c"

definition hex_value :: "string \<Rightarrow> nat option" where
  "hex_value s =
     (if list_all (\<lambda>c. hex_val c \<noteq> None) s
      then Some (foldl (\<lambda>acc c. 16 * acc + the (hex_val c)) 0 s) else None)"

definition EncodeBig :: "int \<Rightarrow> string" where
  "EncodeBig v = (if v < 0 then ''-0x'' @ hex_digits (nat (- v)) else ''0x'' @ hex_digits (nat v))"

definition encode_address :: "address \<Rightarrow> json" where
  "encode_address a = JString (''0x'' @ hex_fixed 40 (unat a))"

definition encode_hash :: "hash \<Rightarrow> json" where
  "encode_hash a = JString (''0x'' @ hex_fixed 64 (unat a))"

definition encode_uint64 :: "64 word \<Rightarrow> json" where
  "encode_uint64 g = JString (''0x'' @ hex_digits (unat g))"

definition encode_bytes :: "8 word list \<Rightarrow> json" where
  "encode_bytes bs = JString (''0x'' @ concat (map (\<lambda>b. hex_fixed 2 (unat b)) bs))"

definition encode_log :: "callLog \<Rightarrow> json" where
  "encode_log l =
     JObject [(''address'', encode_address (Address l)),
              (''topics'', JArray (map encode_hash (Topics l))),
              (''data'', encode_bytes (Data l)),
              (''position'', JString (''0x'' @ hex_digits (Position l)))]"

text \<open>
  Modelled from the spec: \<^verbatim>\<open>callFrame.MarshalJSON\<close> is not among the sources. A frame is
  an object of its fields under the tags copied into \<^verbatim>\<open>callFrame0\<close>, the \<^verbatim>\<open>omitempty\<close> ones
  left out when nil or empty, followed inline by its \<^verbatim>\<open>calls\<close>. \<open>opname\<close> is
  \<^verbatim>\<open>vm.OpCode.String\<close>, which gives the \<^verbatim>\<open>type\<close> field its text and is not among the
  sources either.
\<close>

fun encode_frame :: "(8 word \<Rightarrow> string) \<Rightarrow> callFrame \<Rightarrow> json" where
  "encode_frame opname (CallFrame ty fr gas gu to inp out er rr calls logs val) =
     JObject
      ([(''from'', encode_address fr), (''gas'', encode_uint64 gas), (''gasUsed'', encode_uint64 gu)] @
       (case to of None \<Rightarrow> [] | Some a \<Rightarrow> [(''to'', encode_address a)]) @
       [(''input'', encode_bytes inp)] @
       (if out = [] then [] else [(''output'', encode_bytes out)]) @
       (if er = [] then [] else [(''error'', JString er)]) @
       (if rr = [] then [] else [(''revertReason'', JString rr)]) @
       (if calls = [] then [] else [(''calls'', JArray (map (encode_frame opname) calls))]) @
       (if logs = [] then [] else [(''logs'', JArray (map encode_log logs))]) @
       (case val of None \<Rightarrow> [] | Some v \<Rightarrow> [(''value'', JString (EncodeBig v))]) @
       [(''type'', JString (opname ty))])"

text \<open>A nil slice is marshalled as \<^verbatim>\<open>null\<close>; the tracer's slices are nil or non-empty.\<close>

definition encode_callstacks :: "(8 word \<Rightarrow> string) \<Rightarrow> callFrame list list \<Rightarrow> json" where
  "encode_callstacks opname trees =
     (if trees = [] then JNull
      else JArray (map (\<lambda>entry. if entry = [] then JNull
                                 else JArray (map (encode_frame opname) entry)) trees))"

definition decode_address :: "json \<Rightarrow> string + address" where
  "decode_address j =
     (case j of
        JString s \<Rightarrow>
          (if take 2 s = ''0x'' \<and> length (drop 2 s) = 40
           then (case hex_value (drop 2 s) of
                   None \<Rightarrow> Inl ''invalid hex string''
                 | Some n \<Rightarrow> Inr (word_of_nat n))
           else Inl ''hex string of wrong form for common.Address'')
      | _ \<Rightarrow> Inl ''json: cannot unmarshal non-string into Go value of type common.Address'')"

definition decode_big :: "json \<Rightarrow> string + int" where
  "decode_big j =
     (case j of
        JString s \<Rightarrow>
          (if take 2 s = ''0x'' \<and> drop 2 s \<noteq> []
           then (case hex_value (drop 2 s) of
                   None \<Rightarrow> Inl ''invalid hex string''
                 | Some n \<Rightarrow> Inr (int n))
           else Inl ''hex number of wrong form'')
      | _ \<Rightarrow> Inl ''json: cannot unmarshal non-string into Go value of type *hexutil.Big'')"

definition zero_callFrame0 :: callFrame0 where
  "zero_callFrame0 = CallFrame0 0 None [] None []"

fun set_From :: "address \<Rightarrow> callFrame0 \<Rightarrow> callFrame0" where
  "set_From a (CallFrame0 fr to calls val ty) = CallFrame0 a to calls val ty"

fun set_To :: "address option \<Rightarrow> callFrame0 \<Rightarrow> callFrame0" where
  "set_To a (CallFrame0 fr to calls val ty) = CallFrame0 fr a calls val ty"

fun set_Calls :: "callFrame0 list \<Rightarrow> callFrame0 \<Rightarrow> callFrame0" where
  "set_Calls cs (CallFrame0 fr to calls val ty) = CallFrame0 fr to cs val ty"

fun set_Value :: "int option \<Rightarrow> callFrame0 \<Rightarrow> callFrame0" where
  "set_Value v (CallFrame0 fr to calls val ty) = CallFrame0 fr to calls v ty"

fun set_TypeString :: "string \<Rightarrow> callFrame0 \<Rightarrow> callFrame0" where
  "set_TypeString s (CallFrame0 fr to calls val ty) = CallFrame0 fr to calls val s"

text \<open>
  Modelled from the spec: decoding a document into \<^verbatim>\<open>callFrame0\<close> is done by
  encoding/json from the struct's tags. The members of an object are assigned in their
  order to the field whose tag is the key (matched exactly here), other keys are
  skipped; \<^verbatim>\<open>null\<close> sets a pointer or a slice to nil and leaves a string as it is; a
  document of another shape is a decode error.
\<close>

fun decode_frame :: "json \<Rightarrow> string + callFrame0"
  and decode_fields :: "(string \<times> json) list \<Rightarrow> callFrame0 \<Rightarrow> string + callFrame0"
  and decode_frames :: "json list \<Rightarrow> string + callFrame0 list"
where
  "decode_frame (JObject members) = decode_fields members zero_callFrame0"
| "decode_frame JNull = Inr zero_callFrame0"
| "decode_frame (JBool b) = Inl ''json: cannot unmarshal bool into Go value of type callFrame0''"
| "decode_frame (JNumber n) = Inl ''json: cannot unmarshal number into Go value of type callFrame0''"
| "decode_frame (JString s) = Inl ''json: cannot unmarshal string into Go value of type callFrame0''"
| "decode_frame (JArray js) = Inl ''json: cannot unmarshal array into Go value of type callFrame0''"
| "decode_fields [] acc = Inr acc"
| "decode_fields ((k, v) # rest) acc =
     (if k = ''from'' then
        (case decode_address v of
           Inl e \<Rightarrow> Inl e
         | Inr a \<Rightarrow> decode_fields rest (set_From a acc))
      else if k = ''to'' then
        (if v = JNull then decode_fields rest (set_To None acc)
         else case decode_address v of
           Inl e \<Rightarrow> Inl e
         | Inr a \<Rightarrow> decode_fields rest (set_To (Some a) acc))
      else if k = ''calls'' then
        (case v of
           JNull \<Rightarrow> decode_fields rest (set_Calls [] acc)
         | JArray js \<Rightarrow>
             (case decode_frames js of
                Inl e \<Rightarrow> Inl e
              | Inr cs \<Rightarrow> decode_fields rest (set_Calls cs acc))
         | _ \<Rightarrow> Inl ''json: cannot unmarshal into Go struct field callFrame0.calls'')
      else if k = ''value'' then
        (if v = JNull then decode_fields rest (set_Value None acc)
         else case decode_big v of
           Inl e \<Rightarrow> Inl e
         | Inr n \<Rightarrow> decode_fields rest (set_Value (Some n) acc))
      else if k = ''type'' then
        (case v of
           JNull \<Rightarrow> decode_fields rest acc
         | JString s \<Rightarrow> decode_fields rest (set_TypeString s acc)
         | _ \<Rightarrow> Inl ''json: cannot unmarshal into Go struct field callFrame0.type'')
      else decode_fields rest acc)"
| "decode_frames [] = Inr []"
| "decode_frames (j # js) =
     (case decode_frame j of
        Inl e \<Rightarrow> Inl e
      | Inr f \<Rightarrow> (case decode_frames js of Inl e \<Rightarrow> Inl e | Inr fs \<Rightarrow> Inr (f # fs)))"

fun decode_entries :: "json list \<Rightarrow> string + callFrame0 list list" where
  "decode_entries [] = Inr []"
| "decode_entries (j # js) =
     (case (case j of
              JNull \<Rightarrow> Inr []
            | JArray fs \<Rightarrow> decode_frames fs
            | _ \<Rightarrow> Inl ''json: cannot unmarshal into Go value of type []callFrame0'') of
        Inl e \<Rightarrow> Inl e
      | Inr entry \<Rightarrow>
          (case decode_entries js of Inl e \<Rightarrow> Inl e | Inr rest \<Rightarrow> Inr (entry # rest)))"

definition decode_callstacks :: "json \<Rightarrow> string + callFrame0 list list" where
  "decode_callstacks j =
     (case j of
        JNull \<Rightarrow> Inr []
      | JArray js \<Rightarrow> decode_entries js
      | _ \<Rightarrow> Inl ''json: cannot unmarshal into Go value of type [][]callFrame0'')"

text \<open>What a tree keeps when it is decoded: the five fields of \<^verbatim>\<open>callFrame0\<close>.\<close>

fun project :: "(8 word \<Rightarrow> string) \<Rightarrow> callFrame \<Rightarrow> callFrame0" where
  "project opname (CallFrame ty fr gas gu to inp out er rr calls logs val) =
     CallFrame0 fr to (map (project opname) calls) val (opname ty)"

text \<open>Well-formed trees: a value, where present, is not negative.\<close>

fun well_formed :: "callFrame \<Rightarrow> bool" where
  "well_formed (CallFrame ty fr gas gu to inp out er rr calls logs val) =
     ((case val of None \<Rightarrow> True | Some v \<Rightarrow> 0 \<le> v) \<and> list_all well_formed calls)"

subsection \<open>Inputs for the examples\<close>

text \<open>
  A naming of the opcodes by the spec's type names; two traces that differ in gas and
  input only.
\<close>

definition example_opname :: "8 word \<Rightarrow> string" where
  "example_opname op =
     (if op = 0xF1 then ''Call'' else if op = 0xFA then ''StaticCall''
      else if op = 0xF4 then ''DelegateCall'' else ''Other'')"

definition trees_a :: "callFrame list list" where
  "trees_a =
     [[zero_callFrame,
       CallFrame 0xF1 0xA 21000 0 (Some 0xB) [] [] [] []
         [CallFrame 0xF1 0xB 2300 0 (Some 0) [] [] [] [] [] [] (Some 0),
          CallFrame 0xFA 0xB 2300 0 (Some 0xC) [] [] [] [] [] [] None]
         [] (Some 5)]]"

definition trees_b :: "callFrame list list" where
  "trees_b =
     [[zero_callFrame,
       CallFrame 0xF1 0xA 50000 0 (Some 0xB) [1, 2] [] [] []
         [CallFrame 0xF1 0xB 2300 0 (Some 0) [] [] [] [] [] [] (Some 0),
          CallFrame 0xFA 0xB 2300 0 (Some 0xC) [] [] [] [] [] [] None]
         [] (Some 5)]]"

text \<open>
  The callbacks of a block, from its transactions: a transaction that executes delivers
  \<^verbatim>\<open>OnTxStart\<close>, the well-nested callbacks of its root scope and \<^verbatim>\<open>OnTxEnd\<close> with its
  receipt; one that fails validation delivers \<^verbatim>\<open>OnTxStart\<close> and \<^verbatim>\<open>OnTxEnd\<close> with the error
  (the case \<^verbatim>\<open>OnTxEnd\<close> comments as "Error happened during tx validation").
  \<open>block_of\<close> is a block that lists the transactions.
\<close>

datatype tx_result = Executed script "64 word" | FailedValidation string

record transaction =
  txn_hash :: hash
  txn_gas :: "64 word"
  txn_result :: tx_result

definition tx_events :: "transaction \<Rightarrow> event list" where
  "tx_events tx =
     (case txn_result tx of
        Executed s gasUsed \<Rightarrow> TxStart (txn_gas tx) # events_of 0 s @ [TxEnd (Some gasUsed) None]
      | FailedValidation e \<Rightarrow> [TxStart (txn_gas tx), TxEnd None (Some e)])"



definition contributes :: "transaction \<Rightarrow> bool" where
  "contributes tx = (case txn_result tx of Executed (Scope a subs x) gasUsed \<Rightarrow> True | _ \<Rightarrow> False)"

definition plain_script :: "transaction \<Rightarrow> bool" where
  "plain_script tx = (case txn_result tx of Executed (Emit l) gasUsed \<Rightarrow> False | _ \<Rightarrow> True)"




section \<open>Properties of the export pipeline\<close>

lemmas fixture_defs = sql_driver_def empty_world_def block_7_def frame_C_D_def frame_B_C_def
  frame_A_B_def frame_to_zero_def

lemmas eval_defs = Exec_def log_Error_def internal_tx_def Big_String_def dec_digits.simps
  digit_char_def emptyAddress_def

lemma digit_val_char: "d < 10 \<Longrightarrow> digit_val (digit_char d) = d"
proof -
  assume "d < 10"
  then have "d \<in> {0,1,2,3,4,5,6,7,8,9}" by auto
  then show ?thesis by (auto simp: digit_char_def digit_val_def)
qed

lemma dec_value_dec_digits: "dec_value (dec_digits n) = n"
proof (induction n rule: dec_digits.induct)
  case (1 n)
  show ?case
  proof (cases "n < 10")
    case True
    then show ?thesis by (subst dec_digits.simps) (simp add: dec_value_def digit_val_char)
  next
    case False
    with 1 have "dec_value (dec_digits (n div 10)) = n div 10" by simp
    with False show ?thesis
      by (subst dec_digits.simps) (simp add: dec_value_def digit_val_char)
  qed
qed

lemma number_rows_append:
  "number_rows blk ix ci (xs @ ys) = number_rows blk ix ci xs @ number_rows blk ix (ci + int (length xs)) ys"
  by (induction xs arbitrary: ci) (simp_all add: algebra_simps)

lemma execs_log_Error [simp]: "execs (log_Error m w) = execs w"
  by (simp add: log_Error_def)

lemma execs_Exec: "Exec drv s w = (w1, err) \<Longrightarrow> execs w1 = execs w @ [s]"
  by (auto simp: Exec_def split: prod.splits)

lemma nav_char:
  "navigateCallFrame drv blk ix f s = Inr s' \<Longrightarrow>
     execs (fst s') = execs (fst s) @ map InsertInternalTransaction (number_rows blk ix (snd s) (reached f)) \<and>
     snd s' = snd s + int (length (reached f))"
  "navigateCalls drv blk ix fs s = Inr s' \<Longrightarrow>
     execs (fst s') = execs (fst s) @ map InsertInternalTransaction (number_rows blk ix (snd s) (concat (map reached fs))) \<and>
     snd s' = snd s + int (length (concat (map reached fs)))"
proof (induction drv blk ix f s and drv blk ix fs s arbitrary: s' and s' rule: navigateCallFrame_navigateCalls.induct)
  case (1 drv blk ix frm to calls val ty w ci)
  show ?case
  proof (cases "emits (CallFrame0 frm to calls val ty)")
    case False
    with "1.prems" show ?thesis
      by (auto simp: emits_def split: if_splits option.splits)
  next
    case True
    then obtain v where v: "val = Some v" "v \<noteq> 0" and g: "ty = ''Call''" "frm \<noteq> emptyAddress" "to \<noteq> None"
      by (auto simp: emits_def)
    from "1.prems" v g have inr: "\<not> length (Transactions blk) \<le> ix"
      by (auto split: if_splits)
    obtain w1 err where ex: "Exec drv (InsertInternalTransaction (internal_tx blk ix ci (CallFrame0 frm to calls val ty))) w = (w1, err)"
      by (cases "Exec drv (InsertInternalTransaction (internal_tx blk ix ci (CallFrame0 frm to calls val ty))) w")
    let ?w2 = "case err of None \<Rightarrow> w1 | Some e \<Rightarrow> log_Error ''Failed to insert internal transaction'' w1"
    have e2: "execs ?w2 = execs w @ [InsertInternalTransaction (internal_tx blk ix ci (CallFrame0 frm to calls val ty))]"
      using execs_Exec [OF ex] by (cases err) simp_all
    from "1.prems" v g inr ex have rec: "navigateCalls drv blk ix calls (?w2, ci + 1) = Inr s'"
      by simp
    have ih: "execs (fst s') = execs (fst (?w2, ci + 1)) @ map InsertInternalTransaction (number_rows blk ix (snd (?w2, ci + 1)) (concat (map reached calls))) \<and>
       snd s' = snd (?w2, ci + 1) + int (length (concat (map reached calls)))"
      using "1.IH" [OF _ v(1) v(2) inr ex [symmetric] rec] g by simp
    with e2 True show ?thesis by simp
  qed
next
  case (2 drv blk ix s)
  then show ?case by simp
next
  case (3 drv blk ix call rest s)
  from "3.prems" obtain s1 where s1: "navigateCallFrame drv blk ix call s = Inr s1"
    and r: "navigateCalls drv blk ix rest s1 = Inr s'"
    by (auto split: sum.splits)
  from "3.IH"(1) [OF s1] "3.IH"(2) [OF s1 r] show ?case
    by (simp add: number_rows_append algebra_simps)
qed

lemma nav_returns:
  "panic_free blk ix f \<Longrightarrow> \<exists>s'. navigateCallFrame drv blk ix f s = Inr s'"
  "list_all (panic_free blk ix) fs \<Longrightarrow> \<exists>s'. navigateCalls drv blk ix fs s = Inr s'"
proof (induction drv blk ix f s and drv blk ix fs s rule: navigateCallFrame_navigateCalls.induct)
  case (1 drv blk ix frm to calls val ty w ci)
  show ?case
  proof (cases "ty \<noteq> ''Call'' \<or> frm = emptyAddress \<or> to = None")
    case True
    then show ?thesis by auto
  next
    case g: False
    with "1.prems" obtain v where v: "val = Some v" by (cases val) auto
    show ?thesis
    proof (cases "v = 0")
      case True
      with g v show ?thesis by auto
    next
      case nz: False
      with "1.prems" g v have inr: "\<not> length (Transactions blk) \<le> ix" and all: "list_all (panic_free blk ix) calls"
        by auto
      obtain w1 err where ex: "Exec drv (InsertInternalTransaction (internal_tx blk ix ci (CallFrame0 frm to calls val ty))) w = (w1, err)"
        by (cases "Exec drv (InsertInternalTransaction (internal_tx blk ix ci (CallFrame0 frm to calls val ty))) w")
      from "1.IH" [OF g v nz inr ex [symmetric] all] g v nz inr ex show ?thesis by simp
    qed
  qed
next
  case (2 drv blk ix s)
  then show ?case by simp
next
  case (3 drv blk ix call rest s)
  from "3.prems" have c: "panic_free blk ix call" and r: "list_all (panic_free blk ix) rest" by auto
  from "3.IH"(1) [OF c] obtain s1 where s1: "navigateCallFrame drv blk ix call s = Inr s1" by blast
  from "3.IH"(2) [OF s1 r] s1 show ?case by simp
qed

lemma nav_panics:
  "\<not> panic_free blk ix f \<Longrightarrow> \<exists>p. navigateCallFrame drv blk ix f s = Inl p"
  "\<not> list_all (panic_free blk ix) fs \<Longrightarrow> \<exists>p. navigateCalls drv blk ix fs s = Inl p"
proof (induction drv blk ix f s and drv blk ix fs s rule: navigateCallFrame_navigateCalls.induct)
  case (1 drv blk ix frm to calls val ty w ci)
  from "1.prems" have g: "\<not> (ty \<noteq> ''Call'' \<or> frm = emptyAddress \<or> to = None)"
    by (auto split: if_splits)
  show ?case
  proof (cases val)
    case None
    with g show ?thesis by auto
  next
    case (Some v)
    with "1.prems" g have nz: "v \<noteq> 0" by auto
    show ?thesis
    proof (cases "length (Transactions blk) \<le> ix")
      case True
      with g Some nz show ?thesis by auto
    next
      case inr: False
      with "1.prems" g Some nz have all: "\<not> list_all (panic_free blk ix) calls" by auto
      obtain w1 err where ex: "Exec drv (InsertInternalTransaction (internal_tx blk ix ci (CallFrame0 frm to calls val ty))) w = (w1, err)"
        by (cases "Exec drv (InsertInternalTransaction (internal_tx blk ix ci (CallFrame0 frm to calls val ty))) w")
      from "1.IH" [OF g Some nz inr ex [symmetric] all] g Some nz inr ex show ?thesis by simp
    qed
  qed
next
  case (2 drv blk ix s)
  then show ?case by simp
next
  case (3 drv blk ix call rest s)
  show ?case
  proof (cases "navigateCallFrame drv blk ix call s")
    case (Inl p)
    then show ?thesis by simp
  next
    case (Inr s1)
    have "panic_free blk ix call"
    proof (rule ccontr)
      assume "\<not> panic_free blk ix call"
      from "3.IH"(1) [OF this] Inr show False by simp
    qed
    with "3.prems" have "\<not> list_all (panic_free blk ix) rest" by simp
    from "3.IH"(2) [OF Inr this] Inr show ?thesis by simp
  qed
qed

text \<open>A frame that passes the first three tests and has no value is dereferenced.\<close>

lemma navigateCallFrame_nil_value:
  "navigateCallFrame drv blk ix (CallFrame0 0xA (Some 0xB) calls None ''Call'') s = Inl NilDereference"
  by (cases s) (simp add: emptyAddress_def)

text \<open>
  C1 (as amended). On every frame it is called on without panicking, \<^verbatim>\<open>navigateCallFrame\<close>
  writes one record for that frame, before it navigates the children, if and only if the
  type is "Call", the sender is non-zero, the receiver is present (a present zero
  address passes) and the value is present and non-zero; otherwise it writes nothing and
  leaves the counter as it was.
\<close>

theorem navigateCallFrame_emits_iff:
  assumes "panic_free blk ix frame"
  shows "\<exists>w1 w' ci'.
           navigateCallFrame drv blk ix frame (w, ci) = Inr (w', ci') \<and>
           (if TypeString frame = ''Call'' \<and> From frame \<noteq> emptyAddress \<and> To frame \<noteq> None \<and>
               Value frame \<noteq> None \<and> Value frame \<noteq> Some 0
            then execs w1 = execs w @ [InsertInternalTransaction (internal_tx blk ix ci frame)] \<and>
                 navigateCalls drv blk ix (Calls frame) (w1, ci + 1) = Inr (w', ci')
            else w' = w \<and> ci' = ci)"
proof (cases frame)
  case (CallFrame0 frm to calls val ty)
  show ?thesis
  proof (cases "emits frame")
    case False
    then show ?thesis using CallFrame0 assms
      by (auto simp: emits_def split: option.splits if_splits)
  next
    case True
    then obtain v a where v: "val = Some v" "v \<noteq> 0" and g: "ty = ''Call''" "frm \<noteq> emptyAddress" "to = Some a"
      using CallFrame0 by (auto simp: emits_def)
    from assms CallFrame0 v g have inr: "\<not> length (Transactions blk) \<le> ix" by auto
    obtain w1 err where ex: "Exec drv (InsertInternalTransaction (internal_tx blk ix ci frame)) w = (w1, err)"
      by (cases "Exec drv (InsertInternalTransaction (internal_tx blk ix ci frame)) w")
    let ?w2 = "case err of None \<Rightarrow> w1 | Some e \<Rightarrow> log_Error ''Failed to insert internal transaction'' w1"
    have e2: "execs ?w2 = execs w @ [InsertInternalTransaction (internal_tx blk ix ci frame)]"
      using execs_Exec [OF ex] by (cases err) simp_all
    from nav_returns(1) [OF assms, of drv "(w, ci)"] obtain w' ci'
      where r: "navigateCallFrame drv blk ix frame (w, ci) = Inr (w', ci')" by auto
    with CallFrame0 v g inr ex have "navigateCalls drv blk ix (Calls frame) (?w2, ci + 1) = Inr (w', ci')"
      by simp
    with e2 r True show ?thesis unfolding emits_def by (intro exI [of _ ?w2] exI [of _ w'] exI [of _ ci']) simp
  qed
qed

theorem navigateCallFrame_emits_iff_witness:
  "panic_free block_7 0 frame_A_B \<and>
   (\<exists>w1 w' ci'.
      navigateCallFrame sql_driver block_7 0 frame_A_B (empty_world, 0) = Inr (w', ci') \<and>
      execs w1 = [InsertInternalTransaction (internal_tx block_7 0 0 frame_A_B)] \<and>
      navigateCalls sql_driver block_7 0 [frame_B_C] (w1, 1) = Inr (w', ci'))"
proof -
  have h: "panic_free block_7 0 frame_A_B"
    by (simp add: fixture_defs emptyAddress_def)
  show ?thesis
    using h navigateCallFrame_emits_iff [OF h, of sql_driver empty_world 0]
    by (simp add: frame_A_B_def empty_world_def emptyAddress_def)
qed

text \<open>
  C1, the claim as stated: it asks for a non-zero receiver; a frame of type "Call" from A to the
  zero address with value 5 does not qualify in the spec's sense, and is written.
\<close>

theorem navigateCallFrame_to_zero_counterexample:
  "\<not> qualifies frame_to_zero \<and>
   navigateCallFrame sql_driver block_7 0 frame_to_zero (empty_world, 0) =
     Inr (\<lparr>explorerDb = ([],
            [\<lparr>tx_hash = 0x1111, block_number = 7, block_hash = 0x7777, tx_index = 0,
              call_index = 0, from_addr = 0xA, to_addr = 0, value_str = ''5''\<rparr>]),
          execs = [InsertInternalTransaction
            \<lparr>tx_hash = 0x1111, block_number = 7, block_hash = 0x7777, tx_index = 0,
             call_index = 0, from_addr = 0xA, to_addr = 0, value_str = ''5''\<rparr>],
          logged = []\<rparr>, 1)"
  by (simp add: qualifies_def fixture_defs eval_defs)

lemma range_callstack_char:
  "range_callstack drv blk ix cs w = Inr w' \<Longrightarrow>
   execs w' = execs w @ map InsertInternalTransaction (entry_rows blk ix cs)"
proof (induction cs arbitrary: w)
  case Nil
  then show ?case by (simp add: entry_rows_def)
next
  case (Cons frame rest)
  from Cons.prems obtain w1 ci1 where n: "navigateCallFrame drv blk ix frame (w, 0) = Inr (w1, ci1)"
    and r: "range_callstack drv blk ix rest w1 = Inr w'"
    by (auto split: sum.splits)
  from nav_char(1) [OF n] Cons.IH [OF r] show ?case by (simp add: entry_rows_def)
qed

lemma range_callstacks_char:
  "range_callstacks drv blk ix css w = Inr w' \<Longrightarrow>
   execs w' = execs w @ map InsertInternalTransaction (trace_rows blk ix css)"
proof (induction css arbitrary: w ix)
  case Nil
  then show ?case by simp
next
  case (Cons cs rest)
  from Cons.prems obtain w1 where n: "range_callstack drv blk ix cs w = Inr w1"
    and r: "range_callstacks drv blk (Suc ix) rest w1 = Inr w'"
    by (auto split: sum.splits)
  from range_callstack_char [OF n] Cons.IH [OF r] show ?case by simp
qed

lemma number_rows_tx:
  "r \<in> set (number_rows blk ix ci fs) \<Longrightarrow> tx_index r = ix \<and> tx_hash r = Transactions blk ! ix"
  by (induction fs arbitrary: ci) (auto simp: internal_tx_def)

lemma entry_rows_tx:
  "r \<in> set (entry_rows blk ix cs) \<Longrightarrow> tx_index r = ix \<and> tx_hash r = Transactions blk ! ix"
  by (auto simp: entry_rows_def dest: number_rows_tx)

lemma trace_rows_tx:
  "r \<in> set (trace_rows blk ix css) \<Longrightarrow>
   ix \<le> tx_index r \<and> tx_index r < ix + length css \<and> tx_hash r = Transactions blk ! tx_index r \<and>
   r \<in> set (entry_rows blk (tx_index r) (css ! (tx_index r - ix)))"
proof (induction css arbitrary: ix)
  case Nil
  then show ?case by simp
next
  case (Cons cs rest)
  from Cons.prems consider "r \<in> set (entry_rows blk ix cs)" | "r \<in> set (trace_rows blk (Suc ix) rest)"
    by auto
  then show ?case
  proof cases
    case 1
    with entry_rows_tx [OF 1] show ?thesis by simp
  next
    case 2
    from Cons.IH [OF 2] show ?thesis by (auto simp: Suc_diff_le)
  qed
qed

lemma panic_free_in_range:
  "panic_free blk ix f \<Longrightarrow> reached f \<noteq> [] \<Longrightarrow> ix < length (Transactions blk)"
  by (cases f) (auto simp: emits_def split: if_splits option.splits)

lemma nav_in_range:
  assumes "navigateCallFrame drv blk ix f s = Inr s'" and "reached f \<noteq> []"
  shows "ix < length (Transactions blk)"
proof -
  have "panic_free blk ix f"
  proof (rule ccontr)
    assume "\<not> panic_free blk ix f"
    from nav_panics(1) [OF this, of drv s] assms(1) show False by auto
  qed
  from panic_free_in_range [OF this assms(2)] show ?thesis .
qed

lemma range_callstack_in_range:
  "range_callstack drv blk ix cs w = Inr w' \<Longrightarrow> entry_rows blk ix cs \<noteq> [] \<Longrightarrow>
   ix < length (Transactions blk)"
proof (induction cs arbitrary: w)
  case Nil
  then show ?case by (simp add: entry_rows_def)
next
  case (Cons frame rest)
  from Cons.prems(1) obtain w1 ci1 where n: "navigateCallFrame drv blk ix frame (w, 0) = Inr (w1, ci1)"
    and r: "range_callstack drv blk ix rest w1 = Inr w'"
    by (auto split: sum.splits)
  show ?case
  proof (cases "reached frame = []")
    case True
    with Cons.prems(2) have "entry_rows blk ix rest \<noteq> []" by (simp add: entry_rows_def)
    from Cons.IH [OF r this] show ?thesis .
  next
    case False
    from nav_in_range [OF n False] show ?thesis .
  qed
qed

lemma range_callstacks_in_range:
  "range_callstacks drv blk ix css w = Inr w' \<Longrightarrow> r \<in> set (trace_rows blk ix css) \<Longrightarrow>
   tx_index r < length (Transactions blk)"
proof (induction css arbitrary: w ix)
  case Nil
  then show ?case by simp
next
  case (Cons cs rest)
  from Cons.prems(1) obtain w1 where n: "range_callstack drv blk ix cs w = Inr w1"
    and rr: "range_callstacks drv blk (Suc ix) rest w1 = Inr w'"
    by (auto split: sum.splits)
  from Cons.prems(2) consider "r \<in> set (entry_rows blk ix cs)" | "r \<in> set (trace_rows blk (Suc ix) rest)"
    by auto
  then show ?case
  proof cases
    case 1
    then have "entry_rows blk ix cs \<noteq> []" by auto
    from range_callstack_in_range [OF n this] entry_rows_tx [OF 1] show ?thesis by simp
  next
    case 2
    from Cons.IH [OF rr 2] show ?thesis .
  qed
qed

lemma hook_with_trace:
  assumes "marshal blk receipts traceData = Inr jsonData" and "traceData \<noteq> []"
    and "unmarshal traceData = Inr css"
    and "blockImportHook drv marshal unmarshal blk receipts traceData w = Inr w'"
  shows "\<exists>w2. execs w2 = execs w @ [InsertBlockData \<lparr>number = Number blk, hash_col = Hash blk,
             block_data_col = jsonData, trace_data = Some traceData\<rparr>] \<and>
           range_callstacks drv blk 0 css w2 = Inr w'"
proof -
  let ?s = "InsertBlockData \<lparr>number = Number blk, hash_col = Hash blk,
             block_data_col = jsonData, trace_data = Some traceData\<rparr>"
  obtain w1 err where ex: "Exec drv ?s w = (w1, err)" by (cases "Exec drv ?s w")
  let ?w2 = "if err \<noteq> None then log_Error ''Failed to insert block data'' w1 else w1"
  have "execs ?w2 = execs w @ [?s]" using execs_Exec [OF ex] by simp
  moreover have "range_callstacks drv blk 0 css ?w2 = Inr w'"
    using assms ex by (simp add: blockImportHook_def Let_def)
  ultimately show ?thesis by blast
qed

lemma dec_digits_chars: "set (dec_digits n) \<subseteq> set ''0123456789''"
proof (induction n rule: dec_digits.induct)
  case (1 n)
  have d: "d < 10 \<Longrightarrow> digit_char d \<in> set ''0123456789''" for d
  proof -
    assume "d < 10"
    then have "d \<in> {0,1,2,3,4,5,6,7,8,9}" by auto
    then show ?thesis by (auto simp: digit_char_def)
  qed
  show ?case
  proof (cases "n < 10")
    case True
    with d [of n] show ?thesis by (subst dec_digits.simps) simp
  next
    case False
    with 1 d [of "n mod 10"] show ?thesis by (subst dec_digits.simps) simp
  qed
qed

text \<open>
  C2 (failing input). A call from A to B without value whose child is the qualifying call
  from B to C with value 3: the guard returns before the loop over the children, the
  child is never visited and the trace yields no record, where the claim has every frame
  visited and the child written with index 0.
\<close>

theorem range_callstacks_skips_descendants:
  "qualifies frame_B_C \<and> \<not> qualifies frame_zero_value \<and>
   range_callstacks sql_driver block_7 0 [[frame_zero_value]] empty_world = Inr empty_world"
  by (simp add: qualifies_def frame_zero_value_def fixture_defs emptyAddress_def)

text \<open>
  C6. For a qualifying frame the record written has as its value the decimal numeral of
  the frame's value: digits only, denoting that value.
\<close>

theorem navigateCallFrame_value_decimal:
  assumes "qualifies frame"
    and "navigateCallFrame drv blk ix frame (w, ci) = Inr (w', ci')"
  shows "\<exists>r rest v.
           execs w' = execs w @ InsertInternalTransaction r # rest \<and>
           r = internal_tx blk ix ci frame \<and>
           Value frame = Some v \<and>
           value_str r = dec_digits (nat v) \<and>
           set (value_str r) \<subseteq> set ''0123456789'' \<and>
           int (dec_value (value_str r)) = v"
proof -
  from assms(1) obtain v where v: "Value frame = Some v" "0 < v" and e: "emits frame"
    by (auto simp: qualifies_def emits_def split: option.splits)
  from e have re: "reached frame = frame # concat (map reached (Calls frame))"
    by (cases frame) simp
  from nav_char(1) [OF assms(2)] re
  have "execs w' = execs w @ InsertInternalTransaction (internal_tx blk ix ci frame) #
          map InsertInternalTransaction (number_rows blk ix (ci + 1) (concat (map reached (Calls frame))))"
    by simp
  moreover from v have "value_str (internal_tx blk ix ci frame) = dec_digits (nat v)"
    by (simp add: internal_tx_def Big_String_def)
  moreover from v have "int (dec_value (dec_digits (nat v))) = v"
    by (simp add: dec_value_dec_digits)
  ultimately show ?thesis using v dec_digits_chars [of "nat v"] by simp
qed

theorem navigateCallFrame_value_decimal_witness:
  "qualifies frame_B_C \<and>
   (\<exists>w' ci' r rest.
      navigateCallFrame sql_driver block_7 0 frame_B_C (empty_world, 0) = Inr (w', ci') \<and>
      execs w' = InsertInternalTransaction r # rest \<and> value_str r = ''3'' \<and> dec_value (value_str r) = 3)"
proof -
  have q: "qualifies frame_B_C"
    by (simp add: qualifies_def fixture_defs emptyAddress_def)
  obtain w' ci' where n: "navigateCallFrame sql_driver block_7 0 frame_B_C (empty_world, 0) = Inr (w', ci')"
    by (simp add: fixture_defs eval_defs)
  from navigateCallFrame_value_decimal [OF q n] q n show ?thesis
    by (auto simp: empty_world_def frame_B_C_def dec_digits.simps digit_char_def)
qed

text \<open>
  Every record the hook writes for a decoded trace carries as \<^verbatim>\<open>tx_index\<close> the position of
  its entry in the decoded trace, and as \<^verbatim>\<open>tx_hash\<close> the hash of the block's transaction at
  that same position.
\<close>

lemma blockImportHook_tx_index_hash:
  assumes "marshal blk receipts traceData = Inr jsonData" and "traceData \<noteq> []"
    and "unmarshal traceData = Inr css"
    and "blockImportHook drv marshal unmarshal blk receipts traceData w = Inr w'"
  shows "execs w' = execs w @
           InsertBlockData \<lparr>number = Number blk, hash_col = Hash blk,
             block_data_col = jsonData, trace_data = Some traceData\<rparr> #
           map InsertInternalTransaction (trace_rows blk 0 css) \<and>
         (\<forall>r \<in> set (trace_rows blk 0 css).
            tx_index r < length css \<and>
            r \<in> set (entry_rows blk (tx_index r) (css ! tx_index r)) \<and>
            tx_index r < length (Transactions blk) \<and>
            tx_hash r = Transactions blk ! tx_index r)"
proof -
  from hook_with_trace [OF assms] obtain w2
    where w2: "execs w2 = execs w @ [InsertBlockData \<lparr>number = Number blk, hash_col = Hash blk,
             block_data_col = jsonData, trace_data = Some traceData\<rparr>]"
      and r: "range_callstacks drv blk 0 css w2 = Inr w'"
    by blast
  from range_callstacks_char [OF r] w2 have "execs w' = execs w @
           InsertBlockData \<lparr>number = Number blk, hash_col = Hash blk,
             block_data_col = jsonData, trace_data = Some traceData\<rparr> #
           map InsertInternalTransaction (trace_rows blk 0 css)"
    by simp
  moreover have "tx_index r < length css \<and>
            r \<in> set (entry_rows blk (tx_index r) (css ! tx_index r)) \<and>
            tx_index r < length (Transactions blk) \<and>
            tx_hash r = Transactions blk ! tx_index r"
    if "r \<in> set (trace_rows blk 0 css)" for r
    using trace_rows_tx [OF that] range_callstacks_in_range [OF r that] by simp
  ultimately show ?thesis by blast
qed

lemma blockImportHook_tx_index_hash_example:
  "\<exists>w'. blockImportHook sql_driver marshal_ok unmarshal_scenario block_7 () ''[[{},{}]]'' empty_world = Inr w' \<and>
     execs w' =
       [InsertBlockData \<lparr>number = 7, hash_col = 0x7777, block_data_col = ''{}'',
          trace_data = Some ''[[{},{}]]''\<rparr>,
        InsertInternalTransaction
          \<lparr>tx_hash = 0x1111, block_number = 7, block_hash = 0x7777, tx_index = 0,
           call_index = 0, from_addr = 0xA, to_addr = 0xB, value_str = ''5''\<rparr>,
        InsertInternalTransaction
          \<lparr>tx_hash = 0x1111, block_number = 7, block_hash = 0x7777, tx_index = 0,
           call_index = 1, from_addr = 0xB, to_addr = 0xC, value_str = ''3''\<rparr>]"
proof -
  have m: "marshal_ok block_7 () ''[[{},{}]]'' = Inr ''{}''" by (simp add: marshal_ok_def)
  have u: "unmarshal_scenario ''[[{},{}]]'' = Inr [[CallFrame0 0 None [] None ''STOP'', frame_A_B]]"
    by (simp add: unmarshal_scenario_def)
  obtain w' where h: "blockImportHook sql_driver marshal_ok unmarshal_scenario block_7 () ''[[{},{}]]'' empty_world = Inr w'"
    by (simp add: blockImportHook_def marshal_ok_def unmarshal_scenario_def fixture_defs eval_defs)
  from blockImportHook_tx_index_hash [OF m _ u h] h show ?thesis
    by (simp add: entry_rows_def emits_def fixture_defs eval_defs)
qed

lemma nav_isl: "isl (navigateCallFrame drv blk ix f s) = (\<not> panic_free blk ix f)"
proof (cases "panic_free blk ix f")
  case True
  from nav_returns(1) [OF True, of drv s] True show ?thesis by auto
next
  case False
  from nav_panics(1) [OF False, of drv s] False show ?thesis by auto
qed

lemma range_callstack_isl:
  "isl (range_callstack drv blk ix cs w) = (\<not> list_all (panic_free blk ix) cs)"
proof (induction cs arbitrary: w)
  case Nil
  then show ?case by simp
next
  case (Cons frame rest)
  show ?case
  proof (cases "navigateCallFrame drv blk ix frame (w, 0)")
    case (Inl p)
    with nav_isl [of drv blk ix frame "(w, 0)"] show ?thesis by simp
  next
    case (Inr s')
    with nav_isl [of drv blk ix frame "(w, 0)"] have "panic_free blk ix frame" by simp
    with Inr Cons.IH [of "fst s'"] show ?thesis by (cases s') simp
  qed
qed

lemma range_callstacks_isl:
  "isl (range_callstacks drv blk ix css w) = (\<not> trace_panic_free blk ix css)"
proof (induction css arbitrary: w ix)
  case Nil
  then show ?case by simp
next
  case (Cons entry rest)
  show ?case
  proof (cases "range_callstack drv blk ix entry w")
    case (Inl p)
    with range_callstack_isl [of drv blk ix entry w] show ?thesis by simp
  next
    case (Inr w1)
    with range_callstack_isl [of drv blk ix entry w] have "list_all (panic_free blk ix) entry" by simp
    with Inr Cons.IH [of "Suc ix" w1] show ?thesis by simp
  qed
qed

lemma hook_isl:
  "isl (blockImportHook drv marshal unmarshal blk receipts traceData w) =
     (case marshal blk receipts traceData of
        Inl err \<Rightarrow> False
      | Inr jsonData \<Rightarrow>
          traceData \<noteq> [] \<and>
          (case unmarshal traceData of
             Inl err \<Rightarrow> False
           | Inr css \<Rightarrow> \<not> trace_panic_free blk 0 css))"
  by (simp add: blockImportHook_def Let_def range_callstacks_isl split: sum.splits prod.splits)

text \<open>
  C9. With empty trace bytes the hook issues the block insert without a trace and nothing
  else, whatever the decoder would answer; with trace bytes that do not decode it issues
  the block insert with the trace, logs the decode error and issues nothing else; in both
  cases it returns normally, whatever the store answers. Whether the hook returns or
  panics is the same for every store: no failed insert reaches the caller.
\<close>

theorem blockImportHook_trace_empty_or_invalid:
  assumes "marshal blk receipts traceData = Inr jsonData"
  shows "(traceData = [] \<or> unmarshal traceData = Inl e \<longrightarrow>
          (\<exists>w'. blockImportHook drv marshal unmarshal blk receipts traceData w = Inr w' \<and>
             execs w' = execs w @
               [InsertBlockData \<lparr>number = Number blk, hash_col = Hash blk, block_data_col = jsonData,
                  trace_data = (if traceData = [] then None else Some traceData)\<rparr>] \<and>
             explorerDb w' = fst (drv (explorerDb w)
               (InsertBlockData \<lparr>number = Number blk, hash_col = Hash blk, block_data_col = jsonData,
                  trace_data = (if traceData = [] then None else Some traceData)\<rparr>)) \<and>
             (if traceData = [] then ''Failed to unmarshal trace data'' \<notin> set (logged w') - set (logged w)
              else ''Failed to unmarshal trace data'' \<in> set (logged w')))) \<and>
         isl (blockImportHook drv marshal unmarshal blk receipts traceData w) =
           isl (blockImportHook drv' marshal unmarshal blk receipts traceData w'')"
proof -
  have a: "\<exists>w'. blockImportHook drv marshal unmarshal blk receipts traceData w = Inr w' \<and>
             execs w' = execs w @
               [InsertBlockData \<lparr>number = Number blk, hash_col = Hash blk, block_data_col = jsonData,
                  trace_data = (if traceData = [] then None else Some traceData)\<rparr>] \<and>
             explorerDb w' = fst (drv (explorerDb w)
               (InsertBlockData \<lparr>number = Number blk, hash_col = Hash blk, block_data_col = jsonData,
                  trace_data = (if traceData = [] then None else Some traceData)\<rparr>)) \<and>
             (if traceData = [] then ''Failed to unmarshal trace data'' \<notin> set (logged w') - set (logged w)
              else ''Failed to unmarshal trace data'' \<in> set (logged w'))"
    if h: "traceData = [] \<or> unmarshal traceData = Inl e"
  proof (cases "traceData = []")
    case True
    with assms show ?thesis
      by (auto simp: blockImportHook_def Exec_def log_Error_def split: prod.splits)
  next
    case False
    with h have u: "unmarshal traceData = Inl e" by simp
    with assms False show ?thesis
      by (auto simp: blockImportHook_def Exec_def log_Error_def Let_def split: prod.splits)
  qed
  have b: "isl (blockImportHook drv marshal unmarshal blk receipts traceData w) =
           isl (blockImportHook drv' marshal unmarshal blk receipts traceData w'')"
    by (simp only: hook_isl)
  from a b show ?thesis by blast
qed

theorem blockImportHook_trace_empty_or_invalid_witness:
  "(\<exists>w'. blockImportHook sql_driver marshal_ok unmarshal_scenario block_7 () [] empty_world = Inr w' \<and>
      explorerDb w' = ([\<lparr>number = 7, hash_col = 0x7777, block_data_col = ''{}'', trace_data = None\<rparr>], [])) \<and>
   (\<exists>w'. blockImportHook sql_driver marshal_ok unmarshal_fails block_7 () ''[[{]'' empty_world = Inr w' \<and>
      explorerDb w' = ([\<lparr>number = 7, hash_col = 0x7777, block_data_col = ''{}'',
         trace_data = Some ''[[{]''\<rparr>], []) \<and>
      ''Failed to unmarshal trace data'' \<in> set (logged w'))"
proof -
  have m: "marshal_ok block_7 () t = Inr ''{}''" for t by (simp add: marshal_ok_def)
  have u: "''[[{]'' = [] \<or> unmarshal_fails ''[[{]'' = Inl ''invalid character''"
    by (simp add: unmarshal_fails_def)
  have u0: "[] = [] \<or> unmarshal_scenario [] = Inl []" by simp
  from blockImportHook_trace_empty_or_invalid [where marshal = marshal_ok and blk = block_7
      and receipts = "()" and traceData = "[]" and unmarshal = unmarshal_scenario
      and drv = sql_driver and w = empty_world and e = "[]", OF m, THEN conjunct1, THEN mp, OF u0]
    blockImportHook_trace_empty_or_invalid [where marshal = marshal_ok and blk = block_7
      and receipts = "()" and traceData = "''[[{]''" and unmarshal = unmarshal_fails
      and drv = sql_driver and w = empty_world and e = "''invalid character''", OF m, THEN conjunct1,
      THEN mp, OF u]
  show ?thesis
    by (auto simp: fixture_defs)
qed

text \<open>
  C10. When marshalling the block document fails the hook logs the error and returns: no
  statement is issued and the store is as it was.
\<close>

theorem blockImportHook_marshal_error:
  assumes "marshal blk receipts traceData = Inl err"
  shows "\<exists>w'. blockImportHook drv marshal unmarshal blk receipts traceData w = Inr w' \<and>
           explorerDb w' = explorerDb w \<and> execs w' = execs w \<and>
           logged w' = logged w @ [''Failed to marshal block data'']"
  using assms by (simp add: blockImportHook_def log_Error_def)

theorem blockImportHook_marshal_error_witness:
  "blockImportHook sql_driver marshal_fails unmarshal_scenario block_7 () ''[[{},{}]]'' empty_world =
     Inr (empty_world\<lparr>logged := [''Failed to marshal block data'']\<rparr>)"
proof -
  have m: "marshal_fails block_7 () ''[[{},{}]]'' = Inl ''json: unsupported value''"
    by (simp add: marshal_fails_def)
  from blockImportHook_marshal_error [where marshal = marshal_fails and blk = block_7
      and receipts = "()" and traceData = "''[[{},{}]]''" and unmarshal = unmarshal_scenario
      and drv = sql_driver and w = empty_world, OF m]
  show ?thesis by (auto simp: empty_world_def)
qed

section \<open>Properties of the tracer\<close>

lemmas tracer_defs = OnEnter_def OnExit_def captureEnd_def OnLog_def OnTxStart_def OnTxEnd_def
  OnBlockStart_def Stop_def GetResult_def newBlockCallsTracerObject_def zero_callFrame_def

lemmas tracer_fixture_defs = keep_helpers_def default_config_def with_log_config_def
  enter_A_B_def enter_B_C_def exit_ok_def some_log_def open_tracer_def

lemma run_append:
  "run h (es @ fs) t = (case run h es t of Inl p \<Rightarrow> Inl p | Inr t' \<Rightarrow> run h fs t')"
  by (induction es arbitrary: t) (auto split: sum.splits)

lemma ubf_refl: "unchanged_but_frames t t"
  by (simp add: unchanged_but_frames_def)

lemma ubf_trans:
  "unchanged_but_frames t t1 \<Longrightarrow> unchanged_but_frames t1 t2 \<Longrightarrow> unchanged_but_frames t t2"
  by (simp add: unchanged_but_frames_def)

lemma OnLog_keeps:
  "callstack t \<noteq> [] \<Longrightarrow> \<exists>t'. OnLog l t = Inr t' \<and> unchanged_but_frames t t'"
  by (simp add: OnLog_def unchanged_but_frames_def Let_def)

lemma OnEnter_skip:
  "OnlyTopCall (config t) \<and> 0 < d \<or> interrupt t \<Longrightarrow> OnEnter d ty fr to inp g v t = t\<lparr>depth := d\<rparr>"
  by (auto simp: OnEnter_def Let_def)

lemma OnEnter_push:
  "\<not> (OnlyTopCall (config t) \<and> 0 < d) \<Longrightarrow> \<not> interrupt t \<Longrightarrow>
   \<exists>c. OnEnter d ty fr to inp g v t = t\<lparr>depth := d, callstack := callstack t @ [c]\<rparr>"
  by (auto simp: OnEnter_def Let_def)

lemma OnExit_pop:
  "d \<noteq> 0 \<Longrightarrow> \<not> OnlyTopCall (config t) \<Longrightarrow> 2 \<le> length (callstack t) \<Longrightarrow>
   length (callstack (OnExit h d out gu e rv t)) = length (callstack t) - 1 \<and>
   callstacks (OnExit h d out gu e rv t) = callstacks t \<and>
   config (OnExit h d out gu e rv t) = config t \<and>
   interrupt (OnExit h d out gu e rv t) = interrupt t \<and>
   reason (OnExit h d out gu e rv t) = reason t"
  by (simp add: OnExit_def Let_def)

lemma OnExit_top_only:
  "d \<noteq> 0 \<Longrightarrow> OnlyTopCall (config t) \<Longrightarrow> OnExit h d out gu e rv t = t\<lparr>depth := d - 1\<rparr>"
  by (simp add: OnExit_def Let_def)

lemma scope_keeps:
  "0 < d \<Longrightarrow> \<not> interrupt t \<Longrightarrow> callstack t \<noteq> [] \<Longrightarrow>
   \<exists>t'. run h (events_of d s) t = Inr t' \<and> unchanged_but_frames t t'"
proof (induction s arbitrary: d t)
  case (Emit l)
  then show ?case using OnLog_keeps [of t l] by auto
next
  case (Scope a subs x)
  have subs_keep: "\<And>d t. 0 < d \<Longrightarrow> \<not> interrupt t \<Longrightarrow> callstack t \<noteq> [] \<Longrightarrow> set ss \<subseteq> set subs \<Longrightarrow>
      \<exists>t'. run h (concat (map (events_of d) ss)) t = Inr t' \<and> unchanged_but_frames t t'" for ss
  proof (induction ss)
    case Nil
    then show ?case by (simp add: ubf_refl)
  next
    case (Cons s1 ss)
    from Cons.prems have mem: "s1 \<in> set subs" and sub: "set ss \<subseteq> set subs" by auto
    from Scope.IH [OF mem Cons.prems(1) Cons.prems(2) Cons.prems(3)]
    obtain t1 where t1: "run h (events_of d s1) t = Inr t1" "unchanged_but_frames t t1" by blast
    from t1(2) Cons.prems have "\<not> interrupt t1" "callstack t1 \<noteq> []"
      by (auto simp: unchanged_but_frames_def)
    from Cons.IH [OF Cons.prems(1) this sub]
    obtain t2 where t2: "run h (concat (map (events_of d) ss)) t1 = Inr t2" "unchanged_but_frames t1 t2"
      by blast
    from t1 t2 show ?case by (auto simp: run_append intro: ubf_trans)
  qed
  let ?te = "OnEnter d (en_typ a) (en_from a) (en_to a) (en_input a) (en_gas a) (en_value a) t"
  show ?case
  proof (cases "OnlyTopCall (config t)")
    case True
    with Scope.prems have te: "?te = t\<lparr>depth := d\<rparr>" by (simp add: OnEnter_skip)
    have "\<not> interrupt ?te" "callstack ?te \<noteq> []" using te Scope.prems by simp_all
    from subs_keep [OF _ this, of "d + 1" subs] Scope.prems
    obtain t1 where t1: "run h (concat (map (events_of (d + 1)) subs)) ?te = Inr t1" "unchanged_but_frames ?te t1"
      by auto
    from t1(2) te True have "OnlyTopCall (config t1)" by (simp add: unchanged_but_frames_def)
    with Scope.prems have "OnExit h d (ex_output x) (ex_gasUsed x) (ex_err x) (ex_reverted x) t1 = t1\<lparr>depth := d - 1\<rparr>"
      by (simp add: OnExit_top_only)
    with t1 te show ?thesis by (simp add: run_append unchanged_but_frames_def)
  next
    case False
    with Scope.prems obtain c where te: "?te = t\<lparr>depth := d, callstack := callstack t @ [c]\<rparr>"
      using OnEnter_push [of t d] by blast
    have "\<not> interrupt ?te" "callstack ?te \<noteq> []" using te Scope.prems by simp_all
    from subs_keep [OF _ this, of "d + 1" subs] Scope.prems
    obtain t1 where t1: "run h (concat (map (events_of (d + 1)) subs)) ?te = Inr t1" "unchanged_but_frames ?te t1"
      by auto
    from t1(2) te False Scope.prems have c1: "\<not> OnlyTopCall (config t1)" and l1: "length (callstack t1) = length (callstack t) + 1"
      by (simp_all add: unchanged_but_frames_def)
    from Scope.prems have pos: "0 < length (callstack t)" by simp
    with l1 have "2 \<le> length (callstack t1)" by linarith
    from OnExit_pop [OF _ c1 this, of d h] Scope.prems t1(2) te l1 pos
    have "unchanged_but_frames t (OnExit h d (ex_output x) (ex_gasUsed x) (ex_err x) (ex_reverted x) t1)"
      by (simp add: unchanged_but_frames_def)
    with t1 show ?thesis by (simp add: run_append)
  qed
qed

lemma scopes_keep:
  "0 < d \<Longrightarrow> \<not> interrupt t \<Longrightarrow> callstack t \<noteq> [] \<Longrightarrow>
   \<exists>t'. run h (concat (map (events_of d) ss)) t = Inr t' \<and> unchanged_but_frames t t'"
proof (induction ss arbitrary: t)
  case Nil
  then show ?case by (simp add: ubf_refl)
next
  case (Cons s ss)
  from scope_keeps [OF Cons.prems, of h s]
  obtain t1 where t1: "run h (events_of d s) t = Inr t1" "unchanged_but_frames t t1" by blast
  from t1(2) Cons.prems have "\<not> interrupt t1" "callstack t1 \<noteq> []"
    by (auto simp: unchanged_but_frames_def)
  from Cons.IH [OF Cons.prems(1) this]
  obtain t2 where "run h (concat (map (events_of d) ss)) t1 = Inr t2" "unchanged_but_frames t1 t2"
    by blast
  with t1 show ?case by (auto simp: run_append intro: ubf_trans)
qed

lemma run_snoc: "run h es t = Inr t1 \<Longrightarrow> run h (es @ [ev]) t = fire h ev t1"
  by (simp add: run_append split: sum.splits)

lemma tx_body:
  "\<exists>t1. run h (TxStart g # events_of 0 (Scope a subs x)) t = Inr t1 \<and>
        length (callstack t1) = 2 \<and> callstacks t1 = callstacks t \<and> config t1 = config t"
proof -
  let ?t0 = "OnTxStart g t"
  let ?te = "OnEnter 0 (en_typ a) (en_from a) (en_to a) (en_input a) (en_gas a) (en_value a) ?t0"
  have t0: "\<not> interrupt ?t0" "callstack ?t0 = [zero_callFrame]" "callstacks ?t0 = callstacks t"
    "config ?t0 = config t"
    by (simp_all add: OnTxStart_def)
  from OnEnter_push [of ?t0 0] t0 obtain c
    where te: "?te = ?t0\<lparr>depth := 0, callstack := [zero_callFrame, c]\<rparr>" by fastforce
  have "\<not> interrupt ?te" "callstack ?te \<noteq> []" using te t0 by simp_all
  from scopes_keep [OF _ this, of 1 h subs]
  obtain t1 where t1: "run h (concat (map (events_of 1) subs)) ?te = Inr t1" "unchanged_but_frames ?te t1"
    by auto
  from t1(2) te t0 have l: "length (callstack t1) = 2" "callstacks t1 = callstacks t" "config t1 = config t"
    by (simp_all add: unchanged_but_frames_def)
  then have "OnExit h 0 (ex_output x) (ex_gasUsed x) (ex_err x) (ex_reverted x) t1 = t1"
    by (simp add: OnExit_def captureEnd_def)
  with t1 l show ?thesis by (simp add: run_append)
qed

text \<open>
  C5 (as amended). For every well-nested sequence of one transaction, after \<^verbatim>\<open>OnTxEnd\<close>
  without error the open-frame stack is empty and exactly one entry, of two frames (the
  placeholder allocated by \<^verbatim>\<open>OnTxStart\<close> and the root), was appended; after \<^verbatim>\<open>OnTxEnd\<close>
  with an error nothing was appended and the stack is left as it was, to be replaced by
  the next \<^verbatim>\<open>OnTxStart\<close>.
\<close>

theorem OnTxEnd_stack_discipline:
  "(\<exists>t' entry. run h (TxStart g # events_of 0 (Scope a subs x) @ [TxEnd (Some gu) None]) t = Inr t' \<and>
       callstack t' = [] \<and> callstacks t' = callstacks t @ [entry] \<and> length entry = 2) \<and>
   (\<exists>t'. run h (TxStart g # events_of 0 (Scope a subs x) @ [TxEnd r (Some e)]) t = Inr t' \<and>
       callstacks t' = callstacks t \<and> length (callstack t') = 2) \<and>
   (\<exists>t'. run h [TxStart g, TxEnd r (Some e)] t = Inr t' \<and>
       callstacks t' = callstacks t \<and> callstack t' = [zero_callFrame])"
proof -
  from tx_body [of h g a subs x t] obtain t1
    where t1: "run h (TxStart g # events_of 0 (Scope a subs x)) t = Inr t1"
      "length (callstack t1) = 2" "callstacks t1 = callstacks t"
    by blast
  from t1(2) obtain root rest where st: "callstack t1 = root # rest" "length rest = 1"
    by (cases "callstack t1") auto
  have ok: "\<exists>t' entry. run h (TxStart g # events_of 0 (Scope a subs x) @ [TxEnd (Some gu) None]) t = Inr t' \<and>
       callstack t' = [] \<and> callstacks t' = callstacks t @ [entry] \<and> length entry = 2"
    using run_snoc [OF t1(1), of "TxEnd (Some gu) None"] st t1(3) by (simp add: OnTxEnd_def Let_def)
  have er: "\<exists>t'. run h (TxStart g # events_of 0 (Scope a subs x) @ [TxEnd r (Some e)]) t = Inr t' \<and>
       callstacks t' = callstacks t \<and> length (callstack t') = 2"
    using run_snoc [OF t1(1), of "TxEnd r (Some e)"] t1(2,3) by (simp add: OnTxEnd_def)
  have va: "\<exists>t'. run h [TxStart g, TxEnd r (Some e)] t = Inr t' \<and>
       callstacks t' = callstacks t \<and> callstack t' = [zero_callFrame]"
    by (simp add: OnTxEnd_def OnTxStart_def)
  from ok er va show ?thesis by blast
qed

text \<open>
  C5, the claim as stated: it has the stack empty after the matching \<^verbatim>\<open>OnTxEnd\<close> also when it
  carries an error: a transaction that fails validation leaves the placeholder on it.
\<close>

theorem OnTxEnd_error_keeps_stack_counterexample:
  "run keep_helpers [TxStart 21000, TxEnd None (Some ''nonce too low'')]
     (newBlockCallsTracerObject default_config) =
     Inr ((newBlockCallsTracerObject default_config)\<lparr>callstack := [zero_callFrame], gasLimit := 21000\<rparr>) \<and>
   callstack ((newBlockCallsTracerObject default_config)\<lparr>callstack := [zero_callFrame], gasLimit := 21000\<rparr>) \<noteq> []"
  by (simp add: OnTxEnd_def OnTxStart_def newBlockCallsTracerObject_def)

text \<open>The guards of \<^verbatim>\<open>OnExit\<close> and \<^verbatim>\<open>captureEnd\<close> on a short stack.\<close>

lemma OnExit_short_stack:
  "d \<noteq> 0 \<Longrightarrow> length (callstack t) \<le> 1 \<Longrightarrow> OnExit h d out gu e rv t = t\<lparr>depth := d - 1\<rparr>"
  "length (callstack t) \<noteq> 1 \<Longrightarrow> OnExit h 0 out gu e rv t = t"
  by (simp_all add: OnExit_def captureEnd_def Let_def)

text \<open>
  C7 (failing input). With log collection on, \<^verbatim>\<open>OnLog\<close> on a tracer with no open frame
  indexes the empty stack, and so does \<^verbatim>\<open>OnTxEnd\<close> without error: both panic, where
  \<^verbatim>\<open>OnExit\<close> and \<^verbatim>\<open>captureEnd\<close> test the length of the stack first.
\<close>

theorem OnLog_empty_stack_panics:
  "OnLog l (newBlockCallsTracerObject with_log_config) = Inl IndexOutOfRange \<and>
   OnTxEnd h (Some gu) None (newBlockCallsTracerObject cfg) = Inl IndexOutOfRange"
  by (simp add: OnLog_def OnTxEnd_def newBlockCallsTracerObject_def with_log_config_def)

lemma fire_keeps_stop:
  "\<not> restarts ev \<Longrightarrow> fire h ev t = Inr t' \<Longrightarrow> interrupt t' = interrupt t \<and> reason t' = reason t"
  by (cases ev)
    (auto simp: OnEnter_def OnExit_def captureEnd_def OnLog_def OnTxEnd_def Let_def
      split: if_splits option.splits list.splits)

lemma run_keeps_stop:
  "\<forall>ev \<in> set es. \<not> restarts ev \<Longrightarrow> run h es t = Inr t' \<Longrightarrow>
   interrupt t' = interrupt t \<and> reason t' = reason t"
proof (induction es arbitrary: t)
  case Nil
  then show ?case by simp
next
  case (Cons ev es)
  from Cons.prems obtain t1 where t1: "fire h ev t = Inr t1" "run h es t1 = Inr t'"
    by (auto split: sum.splits)
  from Cons.prems have "\<not> restarts ev" by simp
  from fire_keeps_stop [OF this t1(1)] Cons.IH [OF _ t1(2)] Cons.prems(1) show ?case by simp
qed

text \<open>What \<^verbatim>\<open>OnExit\<close> below depth 0 does to a stack with a frame and its parent on top.\<close>

lemma OnExit_pops_top:
  assumes "d \<noteq> 0" and "\<not> OnlyTopCall (config t)" and "callstack t = st @ [parent, call]"
  shows "OnExit h d out gu e rv t =
           t\<lparr>depth := d - 1,
             callstack := st @ [append_Call (processOutput h (set_GasUsed gu call) out e rv) parent]\<rparr>"
  using assms(1,2) by (simp add: OnExit_def Let_def assms(3) nth_append)

text \<open>
  C3 (as amended). After \<^verbatim>\<open>Stop(err)\<close> and until the next \<^verbatim>\<open>OnTxStart\<close> or \<^verbatim>\<open>OnBlockStart\<close>,
  each of which clears the flag and the reason: the flag and the reason stay set,
  \<^verbatim>\<open>OnEnter\<close> captures no frame and \<^verbatim>\<open>OnLog\<close> no log; \<^verbatim>\<open>OnExit\<close> still exits and pops an
  open frame normally (the top frame leaves the stack, gets its gas used and its output
  and is appended to the calls of its parent), as it does without the stop; and
  \<^verbatim>\<open>GetResult\<close> returns \<open>err\<close> with the marshalled trees.
\<close>

theorem Stop_until_restart:
  assumes "\<forall>ev \<in> set es. \<not> restarts ev"
    and "run h es (Stop err t) = Inr t'"
  shows "interrupt t' \<and> reason t' = err \<and>
         OnEnter d ty fr to inp g v t' = t'\<lparr>depth := d\<rparr> \<and>
         OnLog l t' = Inr t' \<and>
         (d' \<noteq> 0 \<and> \<not> OnlyTopCall (config t') \<and> callstack t' = st @ [parent, call] \<longrightarrow>
            OnExit h d' out gu e rv t' =
              t'\<lparr>depth := d' - 1,
                 callstack := st @ [append_Call (processOutput h (set_GasUsed gu call) out e rv) parent]\<rparr>) \<and>
         OnExit h d' out gu e rv (Stop err t) = Stop err (OnExit h d' out gu e rv t) \<and>
         GetResult h t' =
           (case json_Marshal h (callstacks t') of Inl me \<Rightarrow> (None, Some me) | Inr res \<Rightarrow> (Some res, err)) \<and>
         \<not> interrupt (OnTxStart g' t') \<and> reason (OnTxStart g' t') = None \<and>
         \<not> interrupt (OnBlockStart t') \<and> reason (OnBlockStart t') = None"
proof -
  from run_keeps_stop [OF assms] have k: "interrupt t'" "reason t' = err"
    by (simp_all add: Stop_def)
  have ex: "OnExit h d' out gu e rv (Stop err t) = Stop err (OnExit h d' out gu e rv t)"
    by (simp add: OnExit_def captureEnd_def Stop_def Let_def)
  have pop: "d' \<noteq> 0 \<and> \<not> OnlyTopCall (config t') \<and> callstack t' = st @ [parent, call] \<longrightarrow>
            OnExit h d' out gu e rv t' =
              t'\<lparr>depth := d' - 1,
                 callstack := st @ [append_Call (processOutput h (set_GasUsed gu call) out e rv) parent]\<rparr>"
    using OnExit_pops_top [of d' t' st parent call h out gu e rv] by blast
  have cl: "\<not> interrupt (OnTxStart g' t') \<and> reason (OnTxStart g' t') = None \<and>
         \<not> interrupt (OnBlockStart t') \<and> reason (OnBlockStart t') = None"
    by (simp add: OnTxStart_def OnBlockStart_def)
  have en: "OnEnter d ty fr to inp g v t' = t'\<lparr>depth := d\<rparr>"
    using k by (simp add: OnEnter_def Let_def)
  have lg: "OnLog l t' = Inr t'" using k by (simp add: OnLog_def)
  have gr: "GetResult h t' =
           (case json_Marshal h (callstacks t') of Inl me \<Rightarrow> (None, Some me) | Inr res \<Rightarrow> (Some res, err))"
    using k by (simp add: GetResult_def split: sum.splits)
  from k en lg pop ex gr cl show ?thesis by blast
qed

theorem Stop_until_restart_witness:
  "run keep_helpers [Log some_log, Exit 1 exit_777, Exit 0 exit_ok, TxEnd (Some 21000) None]
      (Stop (Some ''timeout'') nested_tracer) =
     Inr ((Stop (Some ''timeout'') nested_tracer)
           \<lparr>depth := 0, callstack := [],
            callstacks :=
              [[CallFrame 0 0 0 21000 None [] [] [] [] [] [] None,
                CallFrame 0xF1 0xA 21000 0 (Some 0xB) [] [] [] []
                  [CallFrame 0xF1 0xB 2300 777 (Some 0xC) [] [] [] [] [] [] (Some 3)] []
                  (Some 5)]]\<rparr>) \<and>
   OnExit keep_helpers 1 [] 777 None False (Stop (Some ''timeout'') nested_tracer) =
     (Stop (Some ''timeout'') nested_tracer)
       \<lparr>depth := 0,
        callstack :=
          [zero_callFrame,
           CallFrame 0xF1 0xA 21000 0 (Some 0xB) [] [] [] []
             [CallFrame 0xF1 0xB 2300 777 (Some 0xC) [] [] [] [] [] [] (Some 3)] []
             (Some 5)]\<rparr> \<and>
   OnEnter 2 0xFA 0xC 0xD [] 700 None (Stop (Some ''timeout'') nested_tracer) =
     (Stop (Some ''timeout'') nested_tracer)\<lparr>depth := 2\<rparr> \<and>
   OnLog some_log (Stop (Some ''timeout'') nested_tracer) = Inr (Stop (Some ''timeout'') nested_tracer) \<and>
   GetResult keep_helpers (Stop (Some ''timeout'') nested_tracer) = (Some ''[]'', Some ''timeout'')"
proof -
  let ?s = "Stop (Some ''timeout'') nested_tracer"
  have a: "\<forall>ev \<in> set [Log some_log]. \<not> restarts ev" by simp
  have r: "run keep_helpers [Log some_log] ?s = Inr ?s"
    by (simp add: OnLog_def Stop_def)
  have st: "callstack ?s = [zero_callFrame] @
     [CallFrame 0xF1 0xA 21000 0 (Some 0xB) [] [] [] [] [] [] (Some 5),
      CallFrame 0xF1 0xB 2300 0 (Some 0xC) [] [] [] [] [] [] (Some 3)]"
    by (simp add: nested_tracer_def tracer_defs with_log_config_def Let_def)
  have cfg: "\<not> OnlyTopCall (config ?s)"
    by (simp add: nested_tracer_def tracer_defs with_log_config_def Let_def)
  have full: "run keep_helpers [Log some_log, Exit 1 exit_777, Exit 0 exit_ok, TxEnd (Some 21000) None] ?s =
     Inr (?s\<lparr>depth := 0, callstack := [],
            callstacks :=
              [[CallFrame 0 0 0 21000 None [] [] [] [] [] [] None,
                CallFrame 0xF1 0xA 21000 0 (Some 0xB) [] [] [] []
                  [CallFrame 0xF1 0xB 2300 777 (Some 0xC) [] [] [] [] [] [] (Some 3)] []
                  (Some 5)]]\<rparr>)"
    by (simp add: nested_tracer_def tracer_defs tracer_fixture_defs exit_777_def Let_def)
  from Stop_until_restart [OF a r, of 2 "0xFA" "0xC" "0xD" "[]" 700 None some_log 1
      "[zero_callFrame]" "CallFrame 0xF1 0xA 21000 0 (Some 0xB) [] [] [] [] [] [] (Some 5)"
      "CallFrame 0xF1 0xB 2300 0 (Some 0xC) [] [] [] [] [] [] (Some 3)" "[]" 777 None False]
    st cfg full
  show ?thesis by (simp add: keep_helpers_def)
qed

text \<open>
  C3, the claim as stated: it has \<^verbatim>\<open>GetResult\<close> return \<open>err\<close> even if further transactions start:
  \<^verbatim>\<open>OnTxStart\<close> clears the flag and the reason, and frames are captured again.
\<close>

theorem Stop_cleared_by_OnTxStart_counterexample:
  "GetResult keep_helpers (OnTxStart 21000 (Stop (Some ''timeout'') open_tracer)) = (Some ''[]'', None) \<and>
   callstack (OnEnter 0 0xF1 0xA 0xB [] 21000 (Some 5) (OnTxStart 21000 (Stop (Some ''timeout'') open_tracer))) =
     [zero_callFrame, CallFrame 0xF1 0xA 21000 0 (Some 0xB) [] [] [] [] [] [] (Some 5)]"
  by (simp add: tracer_defs tracer_fixture_defs Let_def)

section \<open>Properties of the trace serialization\<close>

lemma hex_val_char: "d < 16 \<Longrightarrow> hex_val (hex_char d) = Some d"
proof -
  assume "d < 16"
  then have "d = 0 \<or> d = 1 \<or> d = 2 \<or> d = 3 \<or> d = 4 \<or> d = 5 \<or> d = 6 \<or> d = 7 \<or> d = 8 \<or>
      d = 9 \<or> d = 10 \<or> d = 11 \<or> d = 12 \<or> d = 13 \<or> d = 14 \<or> d = 15"
    by arith
  then show ?thesis by (auto simp: hex_char_def hex_val_def upt_rec)
qed

lemma hex_value_Nil: "hex_value [] = Some 0"
  by (simp add: hex_value_def)

lemma hex_value_snoc:
  "hex_value xs = Some a \<Longrightarrow> d < 16 \<Longrightarrow> hex_value (xs @ [hex_char d]) = Some (16 * a + d)"
  by (auto simp: hex_value_def hex_val_char split: if_splits)

lemma hex_value_hex_digits: "hex_value (hex_digits n) = Some n"
proof (induction n rule: hex_digits.induct)
  case (1 n)
  show ?case
  proof (cases "n < 16")
    case True
    with hex_value_snoc [OF hex_value_Nil, of n] show ?thesis
      by (subst hex_digits.simps) simp
  next
    case False
    with 1 have "hex_value (hex_digits (n div 16)) = Some (n div 16)" by simp
    from hex_value_snoc [OF this, of "n mod 16"] False show ?thesis
      by (subst hex_digits.simps) simp
  qed
qed

lemma hex_digits_not_Nil: "hex_digits n \<noteq> []"
  by (subst hex_digits.simps) simp

lemma hex_value_hex_fixed: "hex_value (hex_fixed k n) = Some (n mod 16 ^ k)"
proof (induction k arbitrary: n)
  case 0
  then show ?case by (simp add: hex_value_Nil)
next
  case (Suc k)
  from hex_value_snoc [OF Suc.IH [of "n div 16"], of "n mod 16"]
  have "hex_value (hex_fixed (Suc k) n) = Some (16 * (n div 16 mod 16 ^ k) + n mod 16)" by simp
  moreover have "16 * (n div 16 mod 16 ^ k) + n mod 16 = n mod 16 ^ Suc k"
    by (simp add: mod_mult2_eq)
  ultimately show ?case by simp
qed

lemma length_hex_fixed: "length (hex_fixed k n) = k"
  by (induction k arbitrary: n) simp_all

lemma decode_encode_address: "decode_address (encode_address a) = Inr a"
proof -
  have "unat a < 2 ^ LENGTH(160)" by (rule unsigned_less)
  then have "unat a < 2 ^ 160" by simp
  moreover have "(16::nat) ^ 40 = 2 ^ 160" by simp
  ultimately have "unat a mod 16 ^ 40 = unat a" by simp
  then show ?thesis
    by (simp add: decode_address_def encode_address_def hex_value_hex_fixed length_hex_fixed)
qed

lemma decode_big_EncodeBig: "0 \<le> v \<Longrightarrow> decode_big (JString (EncodeBig v)) = Inr v"
  by (simp add: decode_big_def EncodeBig_def hex_value_hex_digits hex_digits_not_Nil)

lemma decode_fields_append:
  "decode_fields (xs @ ys) acc =
     (case decode_fields xs acc of Inl e \<Rightarrow> Inl e | Inr acc' \<Rightarrow> decode_fields ys acc')"
proof (induction xs arbitrary: acc)
  case Nil
  then show ?case by simp
next
  case (Cons x xs)
  obtain k v where x: "x = (k, v)" by (cases x)
  show ?case unfolding x
    by (simp add: Cons.IH split: sum.splits json.splits)
qed

lemma decode_frames_map:
  "(\<And>c. c \<in> set cs \<Longrightarrow> decode_frame (enc c) = Inr (prj c)) \<Longrightarrow>
   decode_frames (map enc cs) = Inr (map prj cs)"
  by (induction cs) simp_all

lemma encode_address_not_null: "encode_address a \<noteq> JNull"
  by (simp add: encode_address_def)

lemma decode_encode_frame:
  "well_formed f \<Longrightarrow> decode_frame (encode_frame opname f) = Inr (project opname f)"
proof (induction f)
  case (CallFrame ty fr gas gu to inp out er rr calls logs val)
  have cs: "decode_frames (map (encode_frame opname) calls) = Inr (map (project opname) calls)"
  proof (rule decode_frames_map)
    fix c assume c: "c \<in> set calls"
    with CallFrame.prems have "well_formed c" by (auto simp: list_all_iff)
    from CallFrame.IH [OF c this] show "decode_frame (encode_frame opname c) = Inr (project opname c)" .
  qed
  have v: "decode_big (JString (EncodeBig x)) = Inr x" if "val = Some x" for x
    using that CallFrame.prems by (simp add: decode_big_EncodeBig)
  have map_nil: "calls = [] \<Longrightarrow> map (project opname) calls = []" by simp
  show ?case
    by (cases to; cases val; cases "calls = []")
      (simp_all add: decode_fields_append decode_encode_address encode_address_not_null cs v
        zero_callFrame0_def)
qed

lemma decode_encode_entry:
  "list_all well_formed entry \<Longrightarrow>
   decode_frames (map (encode_frame opname) entry) = Inr (map (project opname) entry)"
  by (rule decode_frames_map) (auto simp: list_all_iff decode_encode_frame)

lemma decode_entries_encode:
  "list_all (list_all well_formed) trees \<Longrightarrow>
   decode_entries (map (\<lambda>entry. if entry = [] then JNull
                                 else JArray (map (encode_frame opname) entry)) trees) =
     Inr (map (map (project opname)) trees)"
  by (induction trees) (simp_all add: decode_encode_entry)

lemma decode_encode_projects:
  assumes "list_all (list_all well_formed) trees"
  shows "decode_callstacks (encode_callstacks opname trees) = Inr (map (map (project opname)) trees)"
  using decode_entries_encode [OF assms]
  by (simp add: decode_callstacks_def encode_callstacks_def)

text \<open>
  C4 (as amended). For every well-formed list of call trees, decoding the encoded trees
  succeeds and gives each frame reduced to the fields of \<^verbatim>\<open>callFrame0\<close>: sender, receiver,
  value, type text and calls. The receiver and the value come back as they were, absent
  or present, a present zero included.
\<close>

theorem trace_round_trip_projects:
  assumes "list_all (list_all well_formed) trees"
  shows "decode_callstacks (encode_callstacks opname trees) = Inr (map (map (project opname)) trees) \<and>
         From (project opname f) = cf_From f \<and>
         To (project opname f) = cf_To f \<and>
         Value (project opname f) = cf_Value f \<and>
         TypeString (project opname f) = opname (cf_Type f) \<and>
         Calls (project opname f) = map (project opname) (cf_Calls f)"
  using decode_encode_projects [OF assms] by (cases f) simp

theorem trace_round_trip_projects_witness:
  "decode_callstacks (encode_callstacks example_opname trees_a) =
     Inr [[CallFrame0 0 None [] None ''Other'',
           CallFrame0 0xA (Some 0xB)
             [CallFrame0 0xB (Some 0) [] (Some 0) ''Call'',
              CallFrame0 0xB (Some 0xC) [] None ''StaticCall'']
             (Some 5) ''Call'']]"
proof -
  have wf: "list_all (list_all well_formed) trees_a"
    by (simp add: trees_a_def zero_callFrame_def)
  have p: "map (map (project example_opname)) trees_a =
     [[CallFrame0 0 None [] None ''Other'',
           CallFrame0 0xA (Some 0xB)
             [CallFrame0 0xB (Some 0) [] (Some 0) ''Call'',
              CallFrame0 0xB (Some 0xC) [] None ''StaticCall'']
             (Some 5) ''Call'']]"
    by (simp add: trees_a_def zero_callFrame_def example_opname_def)
  from trace_round_trip_projects [OF wf, of example_opname] p show ?thesis by simp
qed

text \<open>
  C4, the claim as stated: it has the decoded trees equal to the encoded ones: two lists of
  trees that differ in the gas and the input of a frame decode to the same result, so the
  trees are not recovered.
\<close>

theorem trace_round_trip_loses_fields_counterexample:
  "trees_a \<noteq> trees_b \<and>
   decode_callstacks (encode_callstacks example_opname trees_a) =
     decode_callstacks (encode_callstacks example_opname trees_b)"
proof -
  have a: "list_all (list_all well_formed) trees_a"
    by (simp add: trees_a_def zero_callFrame_def)
  have b: "list_all (list_all well_formed) trees_b"
    by (simp add: trees_b_def zero_callFrame_def)
  have "map (map (project example_opname)) trees_a = map (map (project example_opname)) trees_b"
    by (simp add: trees_a_def trees_b_def zero_callFrame_def)
  with decode_encode_projects [OF a, of example_opname] decode_encode_projects [OF b, of example_opname]
  have "decode_callstacks (encode_callstacks example_opname trees_a) =
     decode_callstacks (encode_callstacks example_opname trees_b)" by simp
  moreover have "trees_a \<noteq> trees_b" by (simp add: trees_a_def trees_b_def)
  ultimately show ?thesis by simp
qed

text \<open>
  The entries of a block's trace are appended in the order of its transactions, one by
  each transaction that executes and none by one that fails validation: entry \<open>i\<close> is
  produced by the \<open>i\<close>-th transaction that executes.
\<close>

lemma tx_events_entries:
  assumes "plain_script tx"
  shows "\<exists>t' entries. run h (tx_events tx) t = Inr t' \<and> callstacks t' = callstacks t @ entries \<and>
           length entries = (if contributes tx then 1 else 0)"
proof (cases "txn_result tx")
  case (FailedValidation e)
  then show ?thesis by (simp add: tx_events_def OnTxEnd_def OnTxStart_def contributes_def)
next
  case (Executed s gu)
  with assms obtain a subs x where s: "s = Scope a subs x" by (cases s) (auto simp: plain_script_def)
  from tx_body [of h "txn_gas tx" a subs x t] obtain t1
    where t1: "run h (TxStart (txn_gas tx) # events_of 0 (Scope a subs x)) t = Inr t1"
      "length (callstack t1) = 2" "callstacks t1 = callstacks t"
    by blast
  from t1(2) obtain root rest where st: "callstack t1 = root # rest"
    by (cases "callstack t1") auto
  from run_snoc [OF t1(1), of "TxEnd (Some gu) None"] st t1(3) Executed s
  show ?thesis by (simp add: tx_events_def OnTxEnd_def Let_def contributes_def)
qed

lemma block_entries:
  "list_all plain_script txs \<Longrightarrow>
   \<exists>t' entries. run h (concat (map tx_events txs)) t = Inr t' \<and>
     callstacks t' = callstacks t @ entries \<and> length entries = length (filter contributes txs)"
proof (induction txs arbitrary: t)
  case Nil
  then show ?case by simp
next
  case (Cons tx txs)
  from Cons.prems have p: "plain_script tx" and ps: "list_all plain_script txs" by simp_all
  from tx_events_entries [OF p, of h t] obtain t1 e1
    where t1: "run h (tx_events tx) t = Inr t1" "callstacks t1 = callstacks t @ e1"
      "length e1 = (if contributes tx then 1 else 0)" by blast
  from Cons.IH [OF ps, of t1] obtain t2 e2
    where t2: "run h (concat (map tx_events txs)) t1 = Inr t2" "callstacks t2 = callstacks t1 @ e2"
      "length e2 = length (filter contributes txs)" by blast
  have "run h (concat (map tx_events (tx # txs))) t = Inr t2"
    using t1(1) t2(1) by (simp add: run_append)
  moreover have "callstacks t2 = callstacks t @ (e1 @ e2)" using t1(2) t2(2) by simp
  moreover have "length (e1 @ e2) = length (filter contributes (tx # txs))"
    using t1(3) t2(3) by simp
  ultimately show ?case by blast
qed


end
